theory Spec2Isabelle
  imports Complex_Main "HOL-Library.AList"
begin

section \<open>Data model of \<open>dataset.py\<close>\<close>

text \<open>
  The exceptions the code can raise, as values. \<open>self.label_dict[cols[0]]\<close> raises
  \<open>KeyError\<close>, \<open>cols[1]\<close> and \<open>cols[2]\<close> raise \<open>IndexError\<close>, \<open>float(l)\<close>, a
  negative \<open>np.zeros\<close> dimension, a failed broadcast in \<open>np.add\<close> and a \<open>torch.tensor\<close>
  of a ragged list raise \<open>ValueError\<close>, the coverage percentage of \<open>get_glove\<close> raises
  \<open>ZeroDivisionError\<close> on an empty word set, and \<open>torch.tensor\<close> raises
  \<open>ValueError\<close> on an integer outside the 64-bit range and \<open>TypeError\<close> on a string
  in the place of an integer.
\<close>

datatype error = KeyError | IndexError | ValueError | ZeroDivisionError | TypeError

text \<open>
  Python floats and the float64 arrays of numpy are not HOL numbers. The three float
  operations the code uses, and \<open>float(s)\<close> on a string, are parameters of the model:
  every theorem holds for each choice of them, hence also for IEEE arithmetic.
\<close>

record 'f float_ops =
  fzero :: "'f"
  fadd :: "'f \<Rightarrow> 'f \<Rightarrow> 'f"
  fdiv :: "'f \<Rightarrow> int \<Rightarrow> 'f"
  parse_float :: "string \<Rightarrow> 'f option"

text \<open>The two options of \<open>config\<close> that the construction reads besides the file paths.\<close>

record config =
  embedding_dim :: int
  window_size :: int

text \<open>
  The three dictionaries of the object that \<open>load\<close> and \<open>get_total\<close> read and mutate.
  A dictionary is an association list: Python keeps the insertion order, and
  \<open>AList.update\<close> overwrites a present key in place and appends an absent one.
\<close>

record 'f snli =
  word_embeds :: "(string \<times> 'f list) list"
  unseen_word_dict :: "(string \<times> 'f list) list"
  unseen_word_count_dict :: "(string \<times> int) list"

type_synonym example = "string list \<times> string list \<times> int"

section \<open>Library operations the code calls\<close>

text \<open>A \<open>for\<close> loop over a list whose body may raise: the first error ends the loop.\<close>

fun for_loop :: "('a \<Rightarrow> 's \<Rightarrow> error + 's) \<Rightarrow> 'a list \<Rightarrow> 's \<Rightarrow> error + 's" where
  "for_loop body [] s = Inr s"
| "for_loop body (x # xs) s =
     (case body x s of Inl e \<Rightarrow> Inl e | Inr s' \<Rightarrow> for_loop body xs s')"

text \<open>Sequencing of two steps that may raise: an error of the first skips the second.\<close>

definition and_then :: "error + 'a \<Rightarrow> ('a \<Rightarrow> error + 'b) \<Rightarrow> error + 'b" where
  "and_then m k = (case m of Inl e \<Rightarrow> Inl e | Inr x \<Rightarrow> k x)"

text \<open>
  \<open>s.split(sep)\<close> with a one-character separator: never empty, keeps empty fields.
  The split of the rest is never empty, so the first branch of the \<open>case\<close> is dead.
\<close>

fun split_py :: "char \<Rightarrow> string \<Rightarrow> string list" where
  "split_py sep [] = [ []]"
| "split_py sep (c # cs) =
     (case split_py sep cs of
        [] \<Rightarrow> []
      | w # ws \<Rightarrow> if c = sep then [] # w # ws else (c # w) # ws)"

text \<open>\<open>str.isspace\<close> on the code points below 256, and \<open>s.rstrip()\<close>.\<close>

definition is_space :: "char \<Rightarrow> bool" where
  "is_space c \<longleftrightarrow> c \<in> set [CHR 0x09, CHR 0x0A, CHR 0x0B, CHR 0x0C, CHR 0x0D,
     CHR 0x1C, CHR 0x1D, CHR 0x1E, CHR 0x1F, CHR 0x20, CHR 0x85, CHR 0xA0]"

definition rstrip :: "string \<Rightarrow> string" where
  "rstrip s = rev (dropWhile is_space (rev s))"

text \<open>\<open>d[k]\<close> and \<open>k in d\<close> on a dictionary.\<close>

definition lookup :: "('k \<times> 'v) list \<Rightarrow> 'k \<Rightarrow> error + 'v" where
  "lookup d k = (case map_of d k of None \<Rightarrow> Inl KeyError | Some v \<Rightarrow> Inr v)"

definition has_key :: "('k \<times> 'v) list \<Rightarrow> 'k \<Rightarrow> bool" where
  "has_key d k \<longleftrightarrow> map_of d k \<noteq> None"

text \<open>
  \<open>np.zeros(n)\<close>, \<open>np.add(a, b)\<close> on one-dimensional operands with numpy's broadcasting
  (equal lengths, or one operand of length 1), and \<open>a /= c\<close> with an integer \<open>c\<close>.
\<close>

definition np_zeros :: "'f float_ops \<Rightarrow> int \<Rightarrow> error + 'f list" where
  "np_zeros F n = (if n < 0 then Inl ValueError else Inr (replicate (nat n) (fzero F)))"

definition np_add :: "'f float_ops \<Rightarrow> 'f list \<Rightarrow> 'f list \<Rightarrow> error + 'f list" where
  "np_add F a b =
     (if length a = length b then Inr (map2 (fadd F) a b)
      else if length a = 1 then Inr (map (fadd F (hd a)) b)
      else if length b = 1 then Inr (map (\<lambda>x. fadd F x (hd b)) a)
      else Inl ValueError)"

definition np_div :: "'f float_ops \<Rightarrow> 'f list \<Rightarrow> int \<Rightarrow> 'f list" where
  "np_div F a c = map (\<lambda>x. fdiv F x c) a"

section \<open>\<open>SNLIData\<close>\<close>

definition label_dict :: "(string \<times> int) list" where
  "label_dict = [(''entailment'', 0), (''contradiction'', 1), (''neutral'', 2)]"

text \<open>The comprehension \<open>[w for w in col.split(' ') if w != '(' and w != ')']\<close>.\<close>

definition tokens :: "string \<Rightarrow> string list" where
  "tokens col = filter (\<lambda>w. w \<noteq> ''('' \<and> w \<noteq> '')'') (split_py CHR '' '' col)"

subsection \<open>\<open>build_word_set\<close>\<close>

text \<open>
  A file is the list of its lines as the file iterator yields them. The body of the loop
  of \<open>update_dict\<close>, on one pair of \<open>enumerate(f)\<close>.
\<close>

definition update_dict_line :: "nat \<times> string \<Rightarrow> string set \<Rightarrow> error + string set" where
  "update_dict_line il word_set =
     (case il of (idx, line) \<Rightarrow>
        if idx = 0 then Inr word_set
        else
          let cols = split_py CHR 0x09 (rstrip line) in
          if cols ! 0 = ''-'' then Inr word_set
          else if length cols < 3 then Inl IndexError
          else
            let premise = tokens (cols ! 1);
                hypothesis = tokens (cols ! 2)
            in Inr (fold insert (premise @ hypothesis) word_set))"

definition update_dict :: "string list \<Rightarrow> string set \<Rightarrow> error + string set" where
  "update_dict f word_set = for_loop update_dict_line (enumerate 0 f) word_set"

definition build_word_set ::
  "string list \<Rightarrow> string list \<Rightarrow> string list \<Rightarrow> error + string set" where
  "build_word_set train valid test =
     and_then (update_dict train {}) (\<lambda>s1.
     and_then (update_dict valid s1) (\<lambda>s2.
     update_dict test s2))"

subsection \<open>\<open>get_glove\<close>\<close>

text \<open>The comprehension \<open>[float(l) for l in cols[1:]]\<close>: the first bad field raises.\<close>

fun parse_floats :: "'f float_ops \<Rightarrow> string list \<Rightarrow> error + 'f list" where
  "parse_floats F [] = Inr []"
| "parse_floats F (l # ls) =
     (case parse_float F l of None \<Rightarrow> Inl ValueError
      | Some x \<Rightarrow> and_then (parse_floats F ls) (\<lambda>xs. Inr (x # xs)))"

definition get_glove_line ::
  "'f float_ops \<Rightarrow> string set \<Rightarrow> string \<Rightarrow> (string \<times> 'f list) list
     \<Rightarrow> error + (string \<times> 'f list) list" where
  "get_glove_line F word_set line word2vec =
     (let cols = split_py CHR '' '' line in
      if cols ! 0 \<in> word_set then
        and_then (parse_floats F (drop 1 cols)) (\<lambda>v.
          Inr (AList.update (cols ! 0) v word2vec))
      else Inr word2vec)"

text \<open>
  After the loop the code prints \<open>100*len(word2vec)/len(self.word_set)\<close>, which raises
  on an empty word set.
\<close>

definition get_glove ::
  "'f float_ops \<Rightarrow> string set \<Rightarrow> string list \<Rightarrow> error + (string \<times> 'f list) list" where
  "get_glove F word_set f =
     and_then (for_loop (get_glove_line F word_set) f []) (\<lambda>word2vec.
       if word_set = {} then Inl ZeroDivisionError else Inr word2vec)"

subsection \<open>\<open>load\<close> and \<open>approximate_unseen\<close>\<close>

text \<open>The body of the loop over \<open>r\<close> in \<open>approximate_unseen\<close>.\<close>

definition contribute ::
  "'f float_ops \<Rightarrow> string list \<Rightarrow> nat \<Rightarrow> string \<Rightarrow> int \<Rightarrow> 'f snli \<Rightarrow> error + 'f snli" where
  "contribute F sentence w_idx w r st =
     (if r \<noteq> 0 \<and> 0 \<le> int w_idx + r \<and> int w_idx + r < int (length sentence)
         \<and> has_key (word_embeds st) (sentence ! nat (int w_idx + r))
      then
        and_then (lookup (unseen_word_dict st) w) (\<lambda>a.
        and_then (lookup (word_embeds st) (sentence ! nat (int w_idx + r))) (\<lambda>b.
        and_then (np_add F a b) (\<lambda>s.
          let st1 = st\<lparr>unseen_word_dict := AList.update w s (unseen_word_dict st)\<rparr> in
          if has_key (unseen_word_count_dict st1) w then
            and_then (lookup (unseen_word_count_dict st1) w) (\<lambda>c.
              Inr (st1\<lparr>unseen_word_count_dict :=
                         AList.update w (c + 1) (unseen_word_count_dict st1)\<rparr>))
          else Inr (st1\<lparr>unseen_word_count_dict :=
                          AList.update w 1 (unseen_word_count_dict st1)\<rparr>))))
      else Inr st)"

text \<open>The body of the loop over \<open>enumerate(sentence)\<close>.\<close>

definition approximate_word ::
  "'f float_ops \<Rightarrow> config \<Rightarrow> string list \<Rightarrow> nat \<times> string \<Rightarrow> 'f snli \<Rightarrow> error + 'f snli" where
  "approximate_word F cfg sentence iw st =
     (case iw of (w_idx, w) \<Rightarrow>
        if \<not> has_key (word_embeds st) w then
          and_then
            (if \<not> has_key (unseen_word_dict st) w then
               and_then (np_zeros F (embedding_dim cfg)) (\<lambda>z.
                 Inr (st\<lparr>unseen_word_dict := AList.update w z (unseen_word_dict st)\<rparr>))
             else Inr st)
            (\<lambda>st1. for_loop (contribute F sentence w_idx w)
                     [- window_size cfg .. window_size cfg] st1)
        else Inr st)"

definition approximate_unseen ::
  "'f float_ops \<Rightarrow> config \<Rightarrow> string list \<Rightarrow> 'f snli \<Rightarrow> error + 'f snli" where
  "approximate_unseen F cfg sentence st =
     for_loop (approximate_word F cfg sentence) (enumerate 0 sentence) st"

text \<open>
  The body of the loop of \<open>load\<close>; the state is the list \<open>data\<close> and the object. The
  label is looked up after both sentences are read and before the accumulators change.
  The progress report at the end of the body tests \<open>idx + 1 % 10000 == 0\<close>, that is
  \<open>idx + 1 == 0\<close>, which never holds: the body prints nothing.
\<close>

definition load_line ::
  "'f float_ops \<Rightarrow> config \<Rightarrow> nat \<times> string \<Rightarrow> example list \<times> 'f snli
     \<Rightarrow> error + (example list \<times> 'f snli)" where
  "load_line F cfg il ds =
     (case (il, ds) of ((idx, line), (data, st)) \<Rightarrow>
        if idx = 0 then Inr (data, st)
        else
          let cols = split_py CHR 0x09 (rstrip line) in
          if cols ! 0 = ''-'' then Inr (data, st)
          else if length cols < 3 then Inl IndexError
          else
            let premise = tokens (cols ! 1);
                hypothesis = tokens (cols ! 2)
            in
            and_then (lookup label_dict (cols ! 0)) (\<lambda>y.
            and_then (approximate_unseen F cfg premise st) (\<lambda>st1.
            and_then (approximate_unseen F cfg hypothesis st1) (\<lambda>st2.
              Inr (data @ [(premise, hypothesis, y)], st2)))))"

definition load ::
  "'f float_ops \<Rightarrow> config \<Rightarrow> string list \<Rightarrow> 'f snli \<Rightarrow> error + (example list \<times> 'f snli)" where
  "load F cfg f st = for_loop (load_line F cfg) (enumerate 0 f) ([], st)"

subsection \<open>\<open>get_total\<close>\<close>

text \<open>
  The body of the merge loop, on one key of \<open>unseen_word_dict\<close>; the second component
  of the state is the list of the words that \<open>print(w)\<close> wrote.
\<close>

definition merge_word ::
  "'f float_ops \<Rightarrow> string \<Rightarrow> 'f snli \<times> string list \<Rightarrow> error + ('f snli \<times> string list)" where
  "merge_word F w sp =
     (case sp of (st, printed) \<Rightarrow>
        if has_key (unseen_word_count_dict st) w then
          and_then (lookup (unseen_word_dict st) w) (\<lambda>a.
          and_then (lookup (unseen_word_count_dict st) w) (\<lambda>c.
            let st1 = st\<lparr>unseen_word_dict :=
                           AList.update w (np_div F a c) (unseen_word_dict st)\<rparr> in
            and_then (lookup (unseen_word_dict st1) w) (\<lambda>v.
              Inr (st1\<lparr>word_embeds := AList.update w v (word_embeds st1)\<rparr>, printed))))
        else Inr (st, printed @ [w]))"

record 'f loaded =
  train_data :: "example list"
  valid_data :: "example list"
  test_data :: "example list"
  final :: "'f snli"
  printed_words :: "string list"

definition get_total ::
  "'f float_ops \<Rightarrow> config \<Rightarrow> string list \<Rightarrow> string list \<Rightarrow> string list \<Rightarrow> 'f snli
     \<Rightarrow> error + 'f loaded" where
  "get_total F cfg train valid test st =
     and_then (load F cfg train st) (\<lambda>(train_d, st1).
     and_then (load F cfg valid st1) (\<lambda>(valid_d, st2).
     and_then (load F cfg test st2) (\<lambda>(test_d, st3).
     and_then (for_loop (merge_word F) (map fst (unseen_word_dict st3)) (st3, []))
       (\<lambda>(st4, printed).
          Inr \<lparr>train_data = train_d, valid_data = valid_d, test_data = test_d,
               final = st4, printed_words = printed\<rparr>))))"

subsection \<open>\<open>__init__\<close>\<close>

record 'f snli_data =
  word_set :: "string set"
  loaded :: "'f loaded"

definition init ::
  "'f float_ops \<Rightarrow> config \<Rightarrow> string list \<Rightarrow> string list \<Rightarrow> string list \<Rightarrow> string list
     \<Rightarrow> error + 'f snli_data" where
  "init F cfg train valid test glove =
     and_then (build_word_set train valid test) (\<lambda>ws.
     and_then (get_glove F ws glove) (\<lambda>w2v.
     and_then (get_total F cfg train valid test
                 \<lparr>word_embeds = w2v, unseen_word_dict = [], unseen_word_count_dict = []\<rparr>)
       (\<lambda>t. Inr \<lparr>word_set = ws, loaded = t\<rparr>)))"

section \<open>\<open>batchify\<close> and \<open>SNLIDataset\<close>\<close>

text \<open>
  The fields of an example are Python lists whose elements are integers or strings.
  \<open>SNLIDataset.__getitem__\<close> returns a stored example unchanged, so an example that
  \<open>load\<close> appended reaches \<open>batchify\<close> with its tokens as strings.
\<close>

datatype pyval = PyInt int | PyStr string

definition stored_example :: "example \<Rightarrow> pyval list \<times> pyval list \<times> int" where
  "stored_example e = (map PyStr (fst e), map PyStr (fst (snd e)), snd (snd e))"

text \<open>
  A tensor of dtype \<open>torch.int64\<close>: its shape and its elements in row-major order.
\<close>

record tensor =
  tshape :: "nat list"
  tdata :: "int list"

definition int64 :: "int \<Rightarrow> bool" where
  "int64 v \<longleftrightarrow> - (2 ^ 63) \<le> v \<and> v < 2 ^ 63"

text \<open>
  \<open>torch.tensor(x, dtype=torch.int64)\<close> on a list of lists. It first reads the sizes
  off the first element at each depth: the number of rows, the length of the first row,
  and, since a string is a sequence of strings, a third size 0 under an empty first
  string and a \<open>ValueError\<close> (too many dimensions) under a non-empty one; a size 0 ends
  the descent.
\<close>

definition compute_sizes :: "pyval list list \<Rightarrow> error + nat list" where
  "compute_sizes x =
     (case x of
        [] \<Rightarrow> Inr [0]
      | row # _ \<Rightarrow>
          (case row of
             [] \<Rightarrow> Inr [length x, 0]
           | PyInt _ # _ \<Rightarrow> Inr [length x, length row]
           | PyStr s # _ \<Rightarrow>
               if s = [] then Inr [length x, length row, 0] else Inl ValueError))"

text \<open>
  It then stores the elements row by row, unless the tensor has no element, in which
  case it reads nothing more. A row of another length than the first raises
  \<open>ValueError\<close>, as does an integer outside the 64-bit range; a string in the place of
  an integer raises \<open>TypeError\<close>.
\<close>

definition store_scalar :: "pyval \<Rightarrow> int list \<Rightarrow> error + int list" where
  "store_scalar v stored =
     (case v of
        PyInt i \<Rightarrow> if int64 i then Inr (stored @ [i]) else Inl ValueError
      | PyStr _ \<Rightarrow> Inl TypeError)"

definition store_row :: "nat \<Rightarrow> pyval list \<Rightarrow> int list \<Rightarrow> error + int list" where
  "store_row n row stored =
     (if length row \<noteq> n then Inl ValueError else for_loop store_scalar row stored)"

definition torch_tensor_2d :: "pyval list list \<Rightarrow> error + tensor" where
  "torch_tensor_2d x =
     and_then (compute_sizes x) (\<lambda>sizes.
       if prod_list sizes = 0 then Inr \<lparr>tshape = sizes, tdata = []\<rparr>
       else and_then (for_loop (store_row (sizes ! 1)) x []) (\<lambda>stored.
              Inr \<lparr>tshape = sizes, tdata = stored\<rparr>))"

text \<open>
  \<open>torch.tensor(y, dtype=torch.int64)\<close> on the list of the labels, which are integers:
  the empty list gives the shape \<open>[0]\<close>, and an integer outside the 64-bit range raises
  \<open>ValueError\<close>.
\<close>

definition torch_tensor_1d :: "int list \<Rightarrow> error + tensor" where
  "torch_tensor_1d y =
     (if list_all int64 y then Inr \<lparr>tshape = [length y], tdata = y\<rparr> else Inl ValueError)"

text \<open>The collation function: \<open>e[0]\<close> is the premise and \<open>e[2]\<close> the label.\<close>

definition batchify :: "(pyval list \<times> 'h \<times> int) list \<Rightarrow> error + (tensor \<times> tensor)" where
  "batchify b =
     (let x = map (\<lambda>e. fst e) b;
          y = map (\<lambda>e. snd (snd e)) b
      in and_then (torch_tensor_2d x) (\<lambda>x.
         and_then (torch_tensor_1d y) (\<lambda>y. Inr (x, y))))"

section \<open>Notions of the statements and of the proofs\<close>

text \<open>The word of a line of the vector file: \<open>cols[0]\<close> in \<open>get_glove\<close>.\<close>

abbreviation first_field :: "string \<Rightarrow> string" where
  "first_field line \<equiv> split_py CHR '' '' line ! 0"

text \<open>
  The columns of a line of a partition file, \<open>cols\<close> in \<open>update_dict\<close> and \<open>load\<close>; the
  lines that are not skipped for their label; the example that a line gives; the
  sentences of a list of examples, premise then hypothesis; the tokens of a line.
\<close>

abbreviation cols_of :: "string \<Rightarrow> string list" where
  "cols_of line \<equiv> split_py (CHR 0x09) (rstrip line)"

definition retained :: "string \<Rightarrow> bool" where
  "retained line \<longleftrightarrow> cols_of line ! 0 \<noteq> ''-''"

definition parsed :: "string \<Rightarrow> example \<Rightarrow> bool" where
  "parsed line e \<longleftrightarrow>
     3 \<le> length (cols_of line) \<and>
     fst e = tokens (cols_of line ! 1) \<and>
     fst (snd e) = tokens (cols_of line ! 2) \<and>
     map_of label_dict (cols_of line ! 0) = Some (snd (snd e))"

definition sentences_of :: "example list \<Rightarrow> string list list" where
  "sentences_of data = concat (map (\<lambda>e. [fst e, fst (snd e)]) data)"

text \<open>
  The sentences of a partition file, read off its lines: the premise and the hypothesis
  of every line after the first whose label column is not \<open>-\<close>, in the order of the file.
\<close>

definition file_sentences :: "string list \<Rightarrow> string list list" where
  "file_sentences f =
     concat (map (\<lambda>line. [tokens (cols_of line ! 1), tokens (cols_of line ! 2)])
       (filter (\<lambda>line. cols_of line ! 0 \<noteq> ''-'') (drop 1 f)))"

definition line_words :: "string \<Rightarrow> string set" where
  "line_words line = set (tokens (cols_of line ! 1)) \<union> set (tokens (cols_of line ! 2))"

section \<open>The contributions the specification counts\<close>

text \<open>
  Written from the specification, to be compared with what \<open>approximate_unseen\<close>
  accumulates. At position \<open>i\<close> of a sentence, the offset \<open>r\<close> contributes the
  pretrained vector of the token at \<open>i + r\<close> when \<open>r\<close> is not 0, \<open>i + r\<close> is a position
  of the sentence and that token is in the pretrained table.
\<close>

definition offset_contrib ::
  "(string \<times> 'f list) list \<Rightarrow> string list \<Rightarrow> nat \<Rightarrow> int \<Rightarrow> 'f list list" where
  "offset_contrib pre s i r =
     (if r \<noteq> 0 \<and> 0 \<le> int i + r \<and> int i + r < int (length s)
      then (case map_of pre (s ! nat (int i + r)) of Some v \<Rightarrow> [v] | None \<Rightarrow> [])
      else [])"

definition window_contribs ::
  "(string \<times> 'f list) list \<Rightarrow> int \<Rightarrow> string list \<Rightarrow> nat \<Rightarrow> 'f list list" where
  "window_contribs pre ws s i = concat (map (offset_contrib pre s i) [- ws .. ws])"

text \<open>The contributions to the word \<open>w\<close> of one sentence, and of the sentences of a corpus.\<close>

definition sentence_contribs ::
  "(string \<times> 'f list) list \<Rightarrow> int \<Rightarrow> string \<Rightarrow> string list \<Rightarrow> 'f list list" where
  "sentence_contribs pre ws w s =
     concat (map (\<lambda>i. if s ! i = w then window_contribs pre ws s i else []) [0..<length s])"

definition corpus_contribs ::
  "(string \<times> 'f list) list \<Rightarrow> int \<Rightarrow> string \<Rightarrow> example list \<Rightarrow> 'f list list" where
  "corpus_contribs pre ws w data = concat (map (sentence_contribs pre ws w) (sentences_of data))"

text \<open>
  The contributions to the word \<open>w\<close> over the sentences of the three partition files,
  train, then valid, then test.
\<close>

definition files_contribs ::
  "(string \<times> 'f list) list \<Rightarrow> int \<Rightarrow> string \<Rightarrow>
     string list \<Rightarrow> string list \<Rightarrow> string list \<Rightarrow> 'f list list" where
  "files_contribs pre ws w train valid test =
     concat (map (sentence_contribs pre ws w)
       (file_sentences train @ file_sentences valid @ file_sentences test))"

text \<open>The running sum: the zero vector, then each contribution added in turn.\<close>

definition running_sum :: "'f float_ops \<Rightarrow> int \<Rightarrow> 'f list list \<Rightarrow> error + 'f list" where
  "running_sum F n cs = and_then (np_zeros F n) (for_loop (\<lambda>b a. np_add F a b) cs)"

subsection \<open>Notions of the proofs\<close>

text \<open>
  The invariant of the scan: the pretrained table is untouched, the keys of the running
  sums are the words of \<open>K\<close>, none of them pretrained, and for each word the two
  accumulators hold the running sum and the number of the contributions \<open>C\<close> so far.
\<close>

definition tracks ::
  "'f float_ops \<Rightarrow> config \<Rightarrow> (string \<times> 'f list) list \<Rightarrow> string set \<Rightarrow>
     (string \<Rightarrow> 'f list list) \<Rightarrow> 'f snli \<Rightarrow> bool" where
  "tracks F cfg pre K C st \<longleftrightarrow>
     word_embeds st = pre \<and>
     distinct (map fst (unseen_word_dict st)) \<and>
     fst ` set (unseen_word_dict st) = K \<and>
     (\<forall>w. (case map_of (unseen_word_dict st) w of
              None \<Rightarrow> C w = []
            | Some a \<Rightarrow> \<not> has_key pre w \<and> running_sum F (embedding_dim cfg) (C w) = Inr a) \<and>
          map_of (unseen_word_count_dict st) w =
            (if C w = [] then None else Some (int (length (C w)))))"

text \<open>
  The contributions to the word \<open>x\<close> at one position of a sentence, and in a list of
  sentences, counted only when \<open>x\<close> is not in the pretrained table.
\<close>

definition word_contribs ::
  "(string \<times> 'f list) list \<Rightarrow> int \<Rightarrow> string list \<Rightarrow> string \<Rightarrow> nat \<times> string \<Rightarrow> 'f list list" where
  "word_contribs pre ws s x iw =
     (if x = snd iw \<and> \<not> has_key pre x then window_contribs pre ws s (fst iw) else [])"

definition unseen_contribs ::
  "(string \<times> 'f list) list \<Rightarrow> int \<Rightarrow> string list list \<Rightarrow> string \<Rightarrow> 'f list list" where
  "unseen_contribs pre ws sents x =
     (if has_key pre x then [] else concat (map (sentence_contribs pre ws x) sents))"

definition unseen_words :: "(string \<times> 'f list) list \<Rightarrow> string list list \<Rightarrow> string set" where
  "unseen_words pre sents = {w \<in> \<Union> (set ` set sents). \<not> has_key pre w}"

text \<open>
  The entries the merge loop writes on the keys \<open>ks\<close>: one for each key that has a
  contribution count, in the order of the keys.
\<close>

definition merged :: "'f float_ops \<Rightarrow> 'f snli \<Rightarrow> string list \<Rightarrow> (string \<times> 'f list) list" where
  "merged F st ks =
     map (\<lambda>w. (w, np_div F (the (map_of (unseen_word_dict st) w))
                    (the (map_of (unseen_word_count_dict st) w))))
       (filter (has_key (unseen_word_count_dict st)) ks)"

section \<open>A small corpus\<close>

text \<open>
  Exact rational arithmetic for the float operations and a reader of unsigned decimal
  integers for \<open>float(s)\<close>, which, like Python, ignores trailing whitespace.
\<close>

definition digits_float :: "string \<Rightarrow> rat option" where
  "digits_float s =
     (let t = rstrip s in
      if t \<noteq> [] \<and> list_all (\<lambda>c. 48 \<le> (of_char c :: nat) \<and> (of_char c :: nat) \<le> 57) t
      then Some (of_nat (foldl (\<lambda>n c. 10 * n + (of_char c - 48)) 0 t)) else None)"

definition rat_ops :: "rat float_ops" where
  "rat_ops = \<lparr>fzero = 0, fadd = (+), fdiv = (\<lambda>x c. x / of_int c), parse_float = digits_float\<rparr>"

definition tab :: string where
  "tab = [CHR 0x09]"

definition nl :: string where
  "nl = [CHR 0x0A]"

text \<open>
  Three partition files and a vector file. With a window of 1, the word \<open>b\<close> has the
  covered neighbours \<open>a\<close> and \<open>c\<close> in the training premise and \<open>a\<close> in the validation
  premise; the word \<open>x\<close> has none. The last vector line is malformed and its word is
  not in the corpus.
\<close>

definition ex_train :: "string list" where
  "ex_train =
     [''gold_label'' @ tab @ ''sentence1_parse'' @ tab @ ''sentence2_parse'' @ nl,
      ''neutral'' @ tab @ ''( a ( b c ) )'' @ tab @ ''( x b )'' @ tab @ ''more'' @ nl,
      ''-'' @ tab @ ''( q )'' @ tab @ ''( q )'' @ nl]"

definition ex_valid :: "string list" where
  "ex_valid =
     [''gold_label'' @ tab @ ''sentence1_parse'' @ tab @ ''sentence2_parse'' @ nl,
      ''entailment'' @ tab @ ''( b a )'' @ tab @ ''( c )'' @ nl]"

definition ex_test :: "string list" where
  "ex_test = [''gold_label'' @ tab @ ''sentence1_parse'' @ tab @ ''sentence2_parse'' @ nl]"

definition ex_glove :: "string list" where
  "ex_glove = [''a 1 0'' @ nl, ''c 3 0'' @ nl, ''zz 1 bad'' @ nl]"

definition ex_cfg :: config where
  "ex_cfg = \<lparr>embedding_dim = 2, window_size = 1\<rparr>"

definition ex_pre :: "(string \<times> rat list) list" where
  "ex_pre = [(''a'', [1, 0]), (''c'', [3, 0])]"

definition ex_start :: "rat snli" where
  "ex_start = \<lparr>word_embeds = ex_pre, unseen_word_dict = [], unseen_word_count_dict = []\<rparr>"

definition ex_loaded :: "rat loaded" where
  "ex_loaded =
     \<lparr>train_data = [([''a'', ''b'', ''c''], [''x'', ''b''], 2)],
      valid_data = [([''b'', ''a''], [''c''], 0)],
      test_data = [],
      final = \<lparr>word_embeds = [(''a'', [1, 0]), (''c'', [3, 0]), (''b'', [5 / 3, 0])],
               unseen_word_dict = [(''b'', [5 / 3, 0]), (''x'', [0, 0])],
               unseen_word_count_dict = [(''b'', 3)]\<rparr>,
      printed_words = [''x'']\<rparr>"

text \<open>A partition file whose second record has a label that is not in \<open>label_dict\<close>.\<close>

definition ex_bad_line :: string where
  "ex_bad_line = ''maybe'' @ tab @ ''( a )'' @ tab @ ''( b )'' @ nl"

definition ex_bad :: "string list" where
  "ex_bad =
     [''gold_label'' @ tab @ ''sentence1_parse'' @ tab @ ''sentence2_parse'' @ nl,
      ''neutral'' @ tab @ ''( a )'' @ tab @ ''( c )'' @ nl,
      ex_bad_line]"

text \<open>The accumulators in the middle of the first training premise, and one step later.\<close>

definition ex_mid :: "rat snli" where
  "ex_mid = \<lparr>word_embeds = ex_pre, unseen_word_dict = [(''b'', [1, 0])],
             unseen_word_count_dict = [(''b'', 1)]\<rparr>"

definition ex_mid' :: "rat snli" where
  "ex_mid' = \<lparr>word_embeds = ex_pre, unseen_word_dict = [(''b'', [4, 0])],
              unseen_word_count_dict = [(''b'', 2)]\<rparr>"

text \<open>
  A test partition with two more unseen words: \<open>q\<close> next to the pretrained \<open>a\<close>, and
  \<open>z\<close> alone in its sentence. The result of \<open>get_total\<close> on the training and validation
  files above and this test file.
\<close>

definition ex_probe :: "string list" where
  "ex_probe =
     [''gold_label'' @ tab @ ''sentence1_parse'' @ tab @ ''sentence2_parse'' @ nl,
      ''contradiction'' @ tab @ ''( a q )'' @ tab @ ''( z )'' @ nl]"

definition ex_loaded_probe :: "rat loaded" where
  "ex_loaded_probe =
     \<lparr>train_data = [([''a'', ''b'', ''c''], [''x'', ''b''], 2)],
      valid_data = [([''b'', ''a''], [''c''], 0)],
      test_data = [([''a'', ''q''], [''z''], 1)],
      final = \<lparr>word_embeds =
                 [(''a'', [1, 0]), (''c'', [3, 0]), (''b'', [5 / 3, 0]), (''q'', [1, 0])],
               unseen_word_dict =
                 [(''b'', [5 / 3, 0]), (''x'', [0, 0]), (''q'', [1, 0]), (''z'', [0, 0])],
               unseen_word_count_dict = [(''b'', 3), (''q'', 1)]\<rparr>,
      printed_words = [''x'', ''z'']\<rparr>"

text \<open>A batch of two examples with premises of three indices.\<close>

definition ex_batch :: "(int list \<times> int list \<times> int) list" where
  "ex_batch = [([5, 7, 0], [4, 0], 2), ([9, 2, 6], [3, 8], 0)]"

section \<open>Iteration, sequencing and dictionaries\<close>

lemma and_then_Inl [simp]: "and_then (Inl e) k = Inl e"
  by (simp add: and_then_def)

lemma and_then_Inr [simp]: "and_then (Inr x) k = k x"
  by (simp add: and_then_def)

lemma and_then_eq_Inr: "and_then m k = Inr y \<longleftrightarrow> (\<exists>x. m = Inr x \<and> k x = Inr y)"
  by (cases m) simp_all

lemma for_loop_append:
  "for_loop body (xs @ ys) s = and_then (for_loop body xs s) (for_loop body ys)"
  by (induction xs arbitrary: s) (simp_all split: sum.splits)

lemma for_loop_single: "for_loop body [x] s = body x s"
  by (cases "body x s") simp_all

lemma for_loop_snoc_Inr:
  "for_loop body (xs @ [x]) s = Inr s' \<longleftrightarrow> (\<exists>u. for_loop body xs s = Inr u \<and> body x u = Inr s')"
  by (simp add: for_loop_append and_then_eq_Inr for_loop_single del: for_loop.simps)

lemma split_py_not_Nil [simp]: "split_py sep s \<noteq> []"
  by (induction s) (simp_all split: list.splits)

lemma length_split_py [simp]: "0 < length (split_py sep s)"
  by (cases "split_py sep s") (use split_py_not_Nil in auto)

lemma parse_floats_Inr:
  "parse_floats F ls = Inr v \<longleftrightarrow> map (parse_float F) ls = map Some v"
proof (induction ls arbitrary: v)
  case Nil
  show ?case by auto
next
  case (Cons l ls)
  show ?case
  proof (cases "parse_float F l")
    case None
    then show ?thesis by (cases v) auto
  next
    case (Some x)
    then show ?thesis using Cons.IH
      by (cases v) (auto simp add: and_then_eq_Inr)
  qed
qed

lemma update_absent: "k \<notin> fst ` set al \<Longrightarrow> AList.update k v al = al @ [(k, v)]"
  by (induction al) auto

section \<open>The loop of \<open>get_glove\<close>\<close>

lemma glove_loop_filter:
  "for_loop (get_glove_line F ws) (filter (\<lambda>line. first_field line \<in> ws) f) acc
     = for_loop (get_glove_line F ws) f acc"
proof (induction f arbitrary: acc)
  case Nil
  show ?case by simp
next
  case (Cons line f)
  show ?case
  proof (cases "first_field line \<in> ws")
    case True
    then show ?thesis using Cons.IH by (simp split: sum.splits)
  next
    case False
    then have "get_glove_line F ws line acc = Inr acc"
      by (simp add: get_glove_line_def)
    then show ?thesis using False Cons.IH by simp
  qed
qed

lemma glove_loop_table:
  "for_loop (get_glove_line F ws) f [] = Inr t \<Longrightarrow>
     fst ` set t = {w \<in> ws. \<exists>line \<in> set f. first_field line = w} \<and>
     (\<forall>w v. map_of t w = Some v \<longrightarrow>
        map (parse_float F) (drop 1 (split_py CHR '' '' (last (filter (\<lambda>line. first_field line = w) f))))
          = map Some v)"
proof (induction f arbitrary: t rule: rev_induct)
  case Nil
  then show ?case by simp
next
  case (snoc line f)
  from snoc.prems obtain u where u: "for_loop (get_glove_line F ws) f [] = Inr u"
    and step: "get_glove_line F ws line u = Inr t"
    by (auto simp add: for_loop_snoc_Inr)
  note IH = snoc.IH [OF u]
  show ?case
  proof (cases "first_field line \<in> ws")
    case False
    with step have "t = u" by (simp add: get_glove_line_def)
    moreover have "w \<noteq> first_field line" if "map_of u w = Some x" for w x
    proof -
      from that have "w \<in> fst ` set u" by (force dest: map_of_SomeD)
      with IH False show ?thesis by auto
    qed
    ultimately show ?thesis using IH False by auto
  next
    case True
    with step obtain v where v: "parse_floats F (drop 1 (split_py CHR '' '' line)) = Inr v"
      and t: "t = AList.update (first_field line) v u"
      by (auto simp add: get_glove_line_def Let_def and_then_eq_Inr)
    have dom: "fst ` set t = {w \<in> ws. \<exists>l \<in> set (f @ [line]). first_field l = w}"
      using IH True by (auto simp add: t dom_update)
    have vec: "map (parse_float F) (drop 1 (split_py CHR '' '' (last (filter (\<lambda>l. first_field l = w) (f @ [line])))))
          = map Some x" if "map_of t w = Some x" for w x
    proof (cases "w = first_field line")
      case True
      with that v show ?thesis by (simp add: t update_conv' parse_floats_Inr)
    next
      case False
      with that have "map_of u w = Some x" by (simp add: t update_conv')
      with IH False show ?thesis by auto
    qed
    from dom vec show ?thesis by blast
  qed
qed

section \<open>What \<open>load\<close> and \<open>build_word_set\<close> compute\<close>

lemma sentences_of_simps [simp]:
  "sentences_of [] = []"
  "sentences_of (e # es) = fst e # fst (snd e) # sentences_of es"
  by (simp_all add: sentences_of_def)

lemma sentences_of_append: "sentences_of (xs @ ys) = sentences_of xs @ sentences_of ys"
  by (simp add: sentences_of_def)

lemma lookup_eq_Inr: "lookup d k = Inr v \<longleftrightarrow> map_of d k = Some v"
  by (simp add: lookup_def split: option.splits)

lemma load_line_header [simp]: "load_line F cfg (0, line) (data, st) = Inr (data, st)"
  by (simp add: load_line_def)

lemma load_line_skip:
  "\<not> retained line \<Longrightarrow> load_line F cfg (n, line) (data, st) = Inr (data, st)"
  by (simp add: load_line_def retained_def)

lemma load_line_retained:
  assumes "0 < n" and "retained line"
  shows "load_line F cfg (n, line) (data, st) = Inr (d1, s1) \<longleftrightarrow>
     (\<exists>e s'. parsed line e \<and>
        approximate_unseen F cfg (fst e) st = Inr s' \<and>
        approximate_unseen F cfg (fst (snd e)) s' = Inr s1 \<and>
        d1 = data @ [e])"
  using assms
  by (auto simp add: load_line_def retained_def parsed_def Let_def and_then_eq_Inr
      lookup_eq_Inr)

lemma load_loop:
  "0 < n \<Longrightarrow> for_loop (load_line F cfg) (enumerate n ls) (data, st) = Inr (data', st') \<Longrightarrow>
     \<exists>new. data' = data @ new \<and> list_all2 parsed (filter retained ls) new \<and>
       for_loop (approximate_unseen F cfg) (sentences_of new) st = Inr st'"
proof (induction ls arbitrary: n data st)
  case Nil
  then show ?case by simp
next
  case (Cons line ls)
  from Cons.prems(2) obtain d1 s1 where
    step: "load_line F cfg (n, line) (data, st) = Inr (d1, s1)" and
    rest: "for_loop (load_line F cfg) (enumerate (Suc n) ls) (d1, s1) = Inr (data', st')"
    by (auto split: sum.splits)
  from Cons.IH [OF _ rest] obtain new where
    new: "data' = d1 @ new" "list_all2 parsed (filter retained ls) new"
      "for_loop (approximate_unseen F cfg) (sentences_of new) s1 = Inr st'"
    by auto
  show ?case
  proof (cases "retained line")
    case False
    with step have "d1 = data" "s1 = st" by (simp_all add: load_line_skip)
    with new False show ?thesis by auto
  next
    case True
    with step Cons.prems(1) obtain e s' where
      e: "parsed line e" "approximate_unseen F cfg (fst e) st = Inr s'"
        "approximate_unseen F cfg (fst (snd e)) s' = Inr s1" "d1 = data @ [e]"
      by (auto simp add: load_line_retained)
    have "data' = data @ (e # new)" using new(1) e(4) by simp
    moreover have "list_all2 parsed (filter retained (line # ls)) (e # new)"
      using True e(1) new(2) by simp
    moreover have "for_loop (approximate_unseen F cfg) (sentences_of (e # new)) st = Inr st'"
      using e(2,3) new(3) by simp
    ultimately show ?thesis by blast
  qed
qed

lemma load_Inr:
  assumes "load F cfg f st = Inr (data, st')"
  shows "list_all2 parsed (filter retained (drop 1 f)) data"
    and "for_loop (approximate_unseen F cfg) (sentences_of data) st = Inr st'"
proof -
  have "list_all2 parsed (filter retained (drop 1 f)) data \<and>
    for_loop (approximate_unseen F cfg) (sentences_of data) st = Inr st'"
  proof (cases f)
    case Nil
    with assms show ?thesis by (simp add: load_def)
  next
    case (Cons h ls)
    with assms have "for_loop (load_line F cfg) (enumerate (Suc 0) ls) ([], st) = Inr (data, st')"
      by (simp add: load_def)
    from load_loop [OF _ this] Cons show ?thesis by auto
  qed
  then show "list_all2 parsed (filter retained (drop 1 f)) data"
    and "for_loop (approximate_unseen F cfg) (sentences_of data) st = Inr st'" by blast+
qed

lemma parsed_sentences:
  "list_all2 parsed ls data \<Longrightarrow>
     sentences_of data =
       concat (map (\<lambda>line. [tokens (cols_of line ! 1), tokens (cols_of line ! 2)]) ls)"
  by (induction rule: list_all2_induct) (simp_all add: parsed_def)

lemma load_sentences:
  assumes "load F cfg f st = Inr (data, st')"
  shows "sentences_of data = file_sentences f"
  using parsed_sentences [OF load_Inr(1) [OF assms]]
  by (simp add: file_sentences_def retained_def [abs_def])

lemma list_all2_in_set2:
  "list_all2 R xs ys \<Longrightarrow> y \<in> set ys \<Longrightarrow> \<exists>x \<in> set xs. R x y"
  by (induction rule: list_all2_induct) auto

lemma list_all2_in_set1:
  "list_all2 R xs ys \<Longrightarrow> x \<in> set xs \<Longrightarrow> \<exists>y \<in> set ys. R x y"
  by (induction rule: list_all2_induct) auto

lemma fold_insert_set: "fold insert xs A = A \<union> set xs"
  by (induction xs arbitrary: A) auto

lemma update_dict_loop:
  "0 < n \<Longrightarrow> for_loop update_dict_line (enumerate n ls) ws = Inr ws' \<Longrightarrow>
     ws' = ws \<union> (\<Union>line \<in> set (filter retained ls). line_words line)"
proof (induction ls arbitrary: n ws)
  case Nil
  then show ?case by simp
next
  case (Cons line ls)
  from Cons.prems(2) obtain w1 where
    step: "update_dict_line (n, line) ws = Inr w1" and
    rest: "for_loop update_dict_line (enumerate (Suc n) ls) w1 = Inr ws'"
    by (auto split: sum.splits)
  from Cons.IH [OF _ rest]
  have IH: "ws' = w1 \<union> (\<Union>line \<in> set (filter retained ls). line_words line)" by simp
  from step Cons.prems(1) have "w1 = (if retained line then ws \<union> line_words line else ws)"
    by (auto simp add: update_dict_line_def retained_def line_words_def Let_def fold_insert_set
        split: if_splits)
  with IH show ?case by auto
qed

lemma update_dict_Inr:
  assumes "update_dict f ws = Inr ws'"
  shows "ws' = ws \<union> (\<Union>line \<in> set (filter retained (drop 1 f)). line_words line)"
proof (cases f)
  case Nil
  with assms show ?thesis by (simp add: update_dict_def)
next
  case (Cons h ls)
  with assms have "for_loop update_dict_line (enumerate (Suc 0) ls) ws = Inr ws'"
    by (simp add: update_dict_def update_dict_line_def)
  from update_dict_loop [OF _ this] Cons show ?thesis by simp
qed

lemma build_word_set_Inr:
  assumes "build_word_set train valid test = Inr ws"
  shows "ws = (\<Union>line \<in> set (filter retained (drop 1 train @ drop 1 valid @ drop 1 test)).
            line_words line)"
proof -
  from assms obtain s1 s2 where
    "update_dict train {} = Inr s1" "update_dict valid s1 = Inr s2" "update_dict test s2 = Inr ws"
    by (auto simp add: build_word_set_def and_then_eq_Inr)
  then show ?thesis by (auto dest!: update_dict_Inr)
qed

lemma load_words:
  assumes "load F cfg f st = Inr (data, st')" and "e \<in> set data"
  shows "\<exists>line \<in> set (filter retained (drop 1 f)). set (fst e) \<union> set (fst (snd e)) = line_words line"
proof -
  from load_Inr(1) [OF assms(1)] assms(2)
  obtain line where "line \<in> set (filter retained (drop 1 f))" "parsed line e"
    by (blast dest: list_all2_in_set2)
  then show ?thesis by (auto simp add: parsed_def line_words_def)
qed

lemma get_total_Inr:
  assumes "get_total F cfg train valid test st = Inr t"
  shows "\<exists>st1 st2 st3 printed.
     load F cfg train st = Inr (train_data t, st1) \<and>
     load F cfg valid st1 = Inr (valid_data t, st2) \<and>
     load F cfg test st2 = Inr (test_data t, st3) \<and>
     for_loop (merge_word F) (map fst (unseen_word_dict st3)) (st3, []) = Inr (final t, printed_words t)"
  using assms by (auto simp add: get_total_def and_then_eq_Inr)

lemma init_Inr:
  assumes "init F cfg train valid test glove = Inr d"
  shows "build_word_set train valid test = Inr (word_set d)"
    and "\<exists>pre. get_glove F (word_set d) glove = Inr pre \<and>
      get_total F cfg train valid test
        \<lparr>word_embeds = pre, unseen_word_dict = [], unseen_word_count_dict = []\<rparr> = Inr (loaded d)"
  using assms by (auto simp add: init_def and_then_eq_Inr)

section \<open>The construction on the small corpus\<close>

lemma ex_build_word_set:
  "build_word_set ex_train ex_valid ex_test = Inr {''a'', ''b'', ''c'', ''x''}"
  by (simp add: build_word_set_def update_dict_def update_dict_line_def ex_train_def ex_valid_def
      ex_test_def tab_def nl_def rstrip_def is_space_def tokens_def insert_commute)

lemma ex_get_glove: "get_glove rat_ops {''a'', ''b'', ''c'', ''x''} ex_glove = Inr ex_pre"
  by (simp add: get_glove_def get_glove_line_def ex_glove_def ex_pre_def nl_def rat_ops_def
      digits_float_def rstrip_def is_space_def)

lemma ex_load_train:
  "load rat_ops ex_cfg ex_train ex_start =
     Inr ([([''a'', ''b'', ''c''], [''x'', ''b''], 2)],
          \<lparr>word_embeds = ex_pre, unseen_word_dict = [(''b'', [4, 0]), (''x'', [0, 0])],
           unseen_word_count_dict = [(''b'', 2)]\<rparr>)"
  by (simp add: load_def load_line_def approximate_unseen_def approximate_word_def
      contribute_def lookup_def has_key_def np_zeros_def np_add_def
      label_dict_def ex_train_def ex_cfg_def ex_start_def ex_pre_def rat_ops_def tab_def nl_def
      rstrip_def is_space_def tokens_def upto.simps eval_nat_numeral)

lemma ex_load_valid:
  "load rat_ops ex_cfg ex_valid
      \<lparr>word_embeds = ex_pre, unseen_word_dict = [(''b'', [4, 0]), (''x'', [0, 0])],
       unseen_word_count_dict = [(''b'', 2)]\<rparr> =
     Inr ([([''b'', ''a''], [''c''], 0)],
          \<lparr>word_embeds = ex_pre, unseen_word_dict = [(''b'', [5, 0]), (''x'', [0, 0])],
           unseen_word_count_dict = [(''b'', 3)]\<rparr>)"
  by (simp add: load_def load_line_def approximate_unseen_def approximate_word_def
      contribute_def lookup_def has_key_def np_zeros_def np_add_def
      label_dict_def ex_valid_def ex_cfg_def ex_pre_def rat_ops_def tab_def nl_def
      rstrip_def is_space_def tokens_def upto.simps eval_nat_numeral)

lemma ex_load_test: "load rat_ops ex_cfg ex_test st = Inr ([], st)"
  by (simp add: load_def ex_test_def)

lemma ex_get_total: "get_total rat_ops ex_cfg ex_train ex_valid ex_test ex_start = Inr ex_loaded"
  by (simp add: get_total_def ex_load_train ex_load_valid ex_load_test)
    (simp add: merge_word_def lookup_def has_key_def np_div_def rat_ops_def ex_pre_def
      ex_loaded_def)

lemma ex_init:
  "init rat_ops ex_cfg ex_train ex_valid ex_test ex_glove =
     Inr \<lparr>word_set = {''a'', ''b'', ''c'', ''x''}, loaded = ex_loaded\<rparr>"
  using ex_get_total by (simp add: init_def ex_build_word_set ex_get_glove ex_start_def)

section \<open>The vocabulary and the pretrained table\<close>

text \<open>
  Claim C5. When the construction returns, every token of the premise or of the
  hypothesis of every example of the three partitions is a member of the word set that
  \<open>build_word_set\<close> built before \<open>get_glove\<close> and \<open>load\<close> ran.
\<close>

theorem vocabulary_complete:
  assumes "init F cfg train valid test glove = Inr d"
  shows "\<forall>(p, h, y) \<in> set (train_data (loaded d) @ valid_data (loaded d) @ test_data (loaded d)).
           set p \<union> set h \<subseteq> word_set d"
proof -
  from init_Inr [OF assms] obtain pre where
    ws: "build_word_set train valid test = Inr (word_set d)" and
    gt: "get_total F cfg train valid test
        \<lparr>word_embeds = pre, unseen_word_dict = [], unseen_word_count_dict = []\<rparr> = Inr (loaded d)"
    by blast
  from get_total_Inr [OF gt] obtain st0 st1 st2 st3 where
    l: "load F cfg train st0 = Inr (train_data (loaded d), st1)"
       "load F cfg valid st1 = Inr (valid_data (loaded d), st2)"
       "load F cfg test st2 = Inr (test_data (loaded d), st3)"
    by auto
  have "set (fst e) \<union> set (fst (snd e)) \<subseteq> word_set d"
    if "e \<in> set (train_data (loaded d) @ valid_data (loaded d) @ test_data (loaded d))" for e
  proof -
    from that consider "e \<in> set (train_data (loaded d))" | "e \<in> set (valid_data (loaded d))"
      | "e \<in> set (test_data (loaded d))" by auto
    then have "\<exists>f \<in> {train, valid, test}. \<exists>line \<in> set (filter retained (drop 1 f)).
        set (fst e) \<union> set (fst (snd e)) = line_words line"
    proof cases
      case 1
      from load_words [OF l(1) this] show ?thesis by blast
    next
      case 2
      from load_words [OF l(2) this] show ?thesis by blast
    next
      case 3
      from load_words [OF l(3) this] show ?thesis by blast
    qed
    then obtain line where
      "line \<in> set (filter retained (drop 1 train @ drop 1 valid @ drop 1 test))"
      "set (fst e) \<union> set (fst (snd e)) = line_words line"
      by auto
    then show ?thesis unfolding build_word_set_Inr [OF ws] by blast
  qed
  then show ?thesis by force
qed

theorem vocabulary_complete_witness:
  "init rat_ops ex_cfg ex_train ex_valid ex_test ex_glove =
     Inr \<lparr>word_set = {''a'', ''b'', ''c'', ''x''}, loaded = ex_loaded\<rparr> \<and>
   set [''a'', ''b'', ''c''] \<union> set [''x'', ''b''] \<subseteq> {''a'', ''b'', ''c'', ''x''} \<and>
   set [''b'', ''a''] \<union> set [''c''] \<subseteq> {''a'', ''b'', ''c'', ''x''}"
  using vocabulary_complete [OF ex_init] ex_init by (simp add: ex_loaded_def)

text \<open>
  Claim C6. \<open>get_glove\<close> gives the same result on the vector file and on its lines
  whose first field is in the word set, so a line of another word is dropped with its
  fields unread, even when they are not numbers. When it returns a table, the keys are
  the words of the word set that are the first field of some line, and the vector of a
  word is the list of the remaining fields of the last line of that word, each read as a
  float.
\<close>

theorem get_glove_table:
  "get_glove F ws f = get_glove F ws (filter (\<lambda>line. split_py CHR '' '' line ! 0 \<in> ws) f) \<and>
   (\<forall>t. get_glove F ws f = Inr t \<longrightarrow>
      fst ` set t = {w \<in> ws. \<exists>line \<in> set f. split_py CHR '' '' line ! 0 = w} \<and>
      (\<forall>w v. map_of t w = Some v \<longrightarrow>
         map (parse_float F)
           (drop 1 (split_py CHR '' '' (last (filter (\<lambda>line. split_py CHR '' '' line ! 0 = w) f))))
         = map Some v))"
proof (rule conjI)
  show "get_glove F ws f = get_glove F ws (filter (\<lambda>line. split_py CHR '' '' line ! 0 \<in> ws) f)"
    by (simp add: get_glove_def glove_loop_filter)
next
  show "\<forall>t. get_glove F ws f = Inr t \<longrightarrow>
      fst ` set t = {w \<in> ws. \<exists>line \<in> set f. split_py CHR '' '' line ! 0 = w} \<and>
      (\<forall>w v. map_of t w = Some v \<longrightarrow>
         map (parse_float F)
           (drop 1 (split_py CHR '' '' (last (filter (\<lambda>line. split_py CHR '' '' line ! 0 = w) f))))
         = map Some v)"
  proof (intro allI impI)
    fix t assume "get_glove F ws f = Inr t"
    then have "for_loop (get_glove_line F ws) f [] = Inr t"
      by (auto simp add: get_glove_def and_then_eq_Inr split: if_splits)
    from glove_loop_table [OF this]
    show "fst ` set t = {w \<in> ws. \<exists>line \<in> set f. split_py CHR '' '' line ! 0 = w} \<and>
      (\<forall>w v. map_of t w = Some v \<longrightarrow>
         map (parse_float F)
           (drop 1 (split_py CHR '' '' (last (filter (\<lambda>line. split_py CHR '' '' line ! 0 = w) f))))
         = map Some v)" .
  qed
qed

theorem get_glove_table_witness:
  "get_glove rat_ops {''a'', ''b'', ''c'', ''x''} ex_glove = Inr ex_pre \<and>
   get_glove rat_ops {''a'', ''b'', ''c'', ''x''}
     (filter (\<lambda>line. split_py CHR '' '' line ! 0 \<in> {''a'', ''b'', ''c'', ''x''}) ex_glove)
     = Inr ex_pre \<and>
   fst ` set ex_pre =
     {w \<in> {''a'', ''b'', ''c'', ''x''}. \<exists>line \<in> set ex_glove. split_py CHR '' '' line ! 0 = w} \<and>
   map (parse_float rat_ops)
     (drop 1 (split_py CHR '' '' (last (filter (\<lambda>line. split_py CHR '' '' line ! 0 = ''c'') ex_glove))))
     = map Some [3, 0]"
proof -
  have c: "map_of ex_pre ''c'' = Some [3, 0]"
    by (simp add: ex_pre_def)
  from get_glove_table [of rat_ops "{''a'', ''b'', ''c'', ''x''}" ex_glove] ex_get_glove c
  show ?thesis by (simp del: drop_Suc_Cons One_nat_def)
qed

section \<open>The examples of a partition\<close>

lemma label_dict_Some:
  "map_of label_dict l = Some y \<longleftrightarrow>
     l = ''entailment'' \<and> y = 0 \<or> l = ''contradiction'' \<and> y = 1 \<or> l = ''neutral'' \<and> y = 2"
  by (auto simp add: label_dict_def)

text \<open>
  Claim C4. When \<open>load\<close> returns, its example list corresponds, one to one and in order,
  to the lines after the first whose label column is not \<open>-\<close>: the first line is skipped
  whatever it holds, a line with the label \<open>-\<close> gives no example, and every other line
  gives one example, made of the tokens of its second and third columns without the
  tokens \<open>(\<close> and \<open>)\<close> and of the number of its label, 0 for entailment, 1 for
  contradiction and 2 for neutral.
\<close>

theorem load_examples:
  assumes "load F cfg f st = Inr (data, st')"
  shows "list_all2
     (\<lambda>line (p, h, y).
        3 \<le> length (split_py CHR 0x09 (rstrip line)) \<and>
        p = filter (\<lambda>w. w \<noteq> ''('' \<and> w \<noteq> '')'')
              (split_py CHR '' '' (split_py CHR 0x09 (rstrip line) ! 1)) \<and>
        h = filter (\<lambda>w. w \<noteq> ''('' \<and> w \<noteq> '')'')
              (split_py CHR '' '' (split_py CHR 0x09 (rstrip line) ! 2)) \<and>
        (split_py CHR 0x09 (rstrip line) ! 0 = ''entailment'' \<and> y = 0 \<or>
         split_py CHR 0x09 (rstrip line) ! 0 = ''contradiction'' \<and> y = 1 \<or>
         split_py CHR 0x09 (rstrip line) ! 0 = ''neutral'' \<and> y = 2))
     (filter (\<lambda>line. split_py CHR 0x09 (rstrip line) ! 0 \<noteq> ''-'') (drop 1 f)) data"
proof -
  have "list_all2 parsed (filter retained (drop 1 f)) data"
    using assms by (rule load_Inr(1))
  then have "list_all2
     (\<lambda>line (p, h, y).
        3 \<le> length (cols_of line) \<and>
        p = filter (\<lambda>w. w \<noteq> ''('' \<and> w \<noteq> '')'') (split_py CHR '' '' (cols_of line ! 1)) \<and>
        h = filter (\<lambda>w. w \<noteq> ''('' \<and> w \<noteq> '')'') (split_py CHR '' '' (cols_of line ! 2)) \<and>
        (cols_of line ! 0 = ''entailment'' \<and> y = 0 \<or>
         cols_of line ! 0 = ''contradiction'' \<and> y = 1 \<or>
         cols_of line ! 0 = ''neutral'' \<and> y = 2))
     (filter retained (drop 1 f)) data"
    by (rule list_all2_mono) (auto simp add: parsed_def tokens_def label_dict_Some)
  then show ?thesis
    by (simp add: retained_def [abs_def])
qed

theorem load_examples_witness:
  "load rat_ops ex_cfg ex_train ex_start =
     Inr ([([''a'', ''b'', ''c''], [''x'', ''b''], 2)],
          \<lparr>word_embeds = ex_pre, unseen_word_dict = [(''b'', [4, 0]), (''x'', [0, 0])],
           unseen_word_count_dict = [(''b'', 2)]\<rparr>) \<and>
   list_all2
     (\<lambda>line (p, h, y).
        3 \<le> length (split_py CHR 0x09 (rstrip line)) \<and>
        p = filter (\<lambda>w. w \<noteq> ''('' \<and> w \<noteq> '')'')
              (split_py CHR '' '' (split_py CHR 0x09 (rstrip line) ! 1)) \<and>
        h = filter (\<lambda>w. w \<noteq> ''('' \<and> w \<noteq> '')'')
              (split_py CHR '' '' (split_py CHR 0x09 (rstrip line) ! 2)) \<and>
        (split_py CHR 0x09 (rstrip line) ! 0 = ''entailment'' \<and> y = 0 \<or>
         split_py CHR 0x09 (rstrip line) ! 0 = ''contradiction'' \<and> y = 1 \<or>
         split_py CHR 0x09 (rstrip line) ! 0 = ''neutral'' \<and> y = 2))
     (filter (\<lambda>line. split_py CHR 0x09 (rstrip line) ! 0 \<noteq> ''-'') (drop 1 ex_train))
     [([''a'', ''b'', ''c''], [''x'', ''b''], 2 :: int)]"
  using ex_load_train load_examples [OF ex_load_train] by (rule conjI)

text \<open>
  Claim C7. On a line after the first whose label column is neither \<open>-\<close> nor one of
  the three labels of \<open>label_dict\<close>, the body of the loop of \<open>load\<close> raises: the
  \<open>KeyError\<close> of the label lookup, or the \<open>IndexError\<close> of the column reads before it
  when the line has fewer than three columns. No example is produced, and \<open>load\<close> on a
  file that holds such a line raises. For the three labels the lookup returns.
\<close>

theorem unknown_label_raises:
  "(split_py CHR 0x09 (rstrip line) ! 0 \<notin> {''-'', ''entailment'', ''contradiction'', ''neutral''} \<longrightarrow>
      load_line F cfg (Suc n, line) (data, st) =
        (if length (split_py CHR 0x09 (rstrip line)) < 3 then Inl IndexError else Inl KeyError) \<and>
      (line \<in> set (drop 1 f) \<longrightarrow> (\<exists>e. load F cfg f st = Inl e))) \<and>
   lookup label_dict ''entailment'' = Inr 0 \<and>
   lookup label_dict ''contradiction'' = Inr 1 \<and>
   lookup label_dict ''neutral'' = Inr 2"
proof (intro conjI impI)
  assume unknown: "cols_of line ! 0 \<notin> {''-'', ''entailment'', ''contradiction'', ''neutral''}"
  then have "lookup label_dict (cols_of line ! 0) = Inl KeyError"
    by (simp add: lookup_def label_dict_def)
  with unknown show "load_line F cfg (Suc n, line) (data, st) =
        (if length (cols_of line) < 3 then Inl IndexError else Inl KeyError)"
    by (simp add: load_line_def Let_def)
  assume line: "line \<in> set (drop 1 f)"
  show "\<exists>e. load F cfg f st = Inl e"
  proof (cases "load F cfg f st")
    case (Inl e)
    then show ?thesis by blast
  next
    case (Inr r)
    obtain d s where "r = (d, s)" by (cases r)
    with Inr have "list_all2 parsed (filter retained (drop 1 f)) d"
      by (auto dest: load_Inr(1))
    moreover have "line \<in> set (filter retained (drop 1 f))"
      using line unknown by (simp add: retained_def)
    ultimately obtain e where "parsed line e"
      by (blast dest: list_all2_in_set1)
    with unknown show ?thesis
      by (auto simp add: parsed_def label_dict_Some)
  qed
qed (simp_all add: lookup_def label_dict_def)

lemma ex_bad_label: "split_py CHR 0x09 (rstrip ex_bad_line) = [''maybe'', ''( a )'', ''( b )'']"
  by (simp add: ex_bad_line_def tab_def nl_def rstrip_def is_space_def)

theorem unknown_label_raises_witness:
  "split_py CHR 0x09 (rstrip ex_bad_line) ! 0 \<notin> {''-'', ''entailment'', ''contradiction'', ''neutral''} \<and>
   ex_bad_line \<in> set (drop 1 ex_bad) \<and>
   load_line rat_ops ex_cfg (Suc 1, ex_bad_line) ([([''a''], [''c''], 2)], ex_start) = Inl KeyError \<and>
   (\<exists>e. load rat_ops ex_cfg ex_bad ex_start = Inl e)"
proof -
  have a: "split_py CHR 0x09 (rstrip ex_bad_line) ! 0 \<notin>
      {''-'', ''entailment'', ''contradiction'', ''neutral''}"
    by (simp add: ex_bad_label)
  have b: "ex_bad_line \<in> set (drop 1 ex_bad)"
    by (simp add: ex_bad_def)
  from unknown_label_raises [of ex_bad_line rat_ops ex_cfg 1 "[([''a''], [''c''], 2)]" ex_start ex_bad]
    a b
  show ?thesis by (simp add: ex_bad_label)
qed

section \<open>What the scan accumulates\<close>

lemma running_sum_Nil: "running_sum F n [] = np_zeros F n"
  by (cases "np_zeros F n") (simp_all add: running_sum_def)

lemma running_sum_snoc:
  "running_sum F n cs = Inr a \<Longrightarrow> running_sum F n (cs @ [b]) = np_add F a b"
  by (auto simp add: running_sum_def and_then_eq_Inr for_loop_append for_loop_single
      simp del: for_loop.simps)

lemma has_key_iff: "has_key d k \<longleftrightarrow> k \<in> fst ` set d"
  by (simp add: has_key_def map_of_eq_None_iff)

lemma tracksD:
  assumes "tracks F cfg pre K C st"
  shows "word_embeds st = pre"
    and "distinct (map fst (unseen_word_dict st))"
    and "fst ` set (unseen_word_dict st) = K"
    and "map_of (unseen_word_dict st) w = None \<Longrightarrow> C w = []"
    and "map_of (unseen_word_dict st) w = Some a \<Longrightarrow>
           \<not> has_key pre w \<and> running_sum F (embedding_dim cfg) (C w) = Inr a"
    and "map_of (unseen_word_count_dict st) w =
           (if C w = [] then None else Some (int (length (C w))))"
proof -
  from assms have *: "\<And>w. (case map_of (unseen_word_dict st) w of
              None \<Rightarrow> C w = []
            | Some a \<Rightarrow> \<not> has_key pre w \<and> running_sum F (embedding_dim cfg) (C w) = Inr a) \<and>
          map_of (unseen_word_count_dict st) w =
            (if C w = [] then None else Some (int (length (C w))))"
    by (simp add: tracks_def)
  from assms show "word_embeds st = pre" "distinct (map fst (unseen_word_dict st))"
    "fst ` set (unseen_word_dict st) = K"
    by (simp_all add: tracks_def)
  from * [of w] show "map_of (unseen_word_dict st) w = None \<Longrightarrow> C w = []" by simp
  from * [of w] show "map_of (unseen_word_dict st) w = Some a \<Longrightarrow>
           \<not> has_key pre w \<and> running_sum F (embedding_dim cfg) (C w) = Inr a" by simp
  from * [of w] show "map_of (unseen_word_count_dict st) w =
           (if C w = [] then None else Some (int (length (C w))))" by simp
qed

lemma contribute_skip:
  "offset_contrib (word_embeds st) s i r = [] \<Longrightarrow> contribute F s i w r st = Inr st"
  by (auto simp add: offset_contrib_def contribute_def has_key_def split: if_splits option.splits)

lemma contribute_add:
  assumes "offset_contrib (word_embeds st) s i r = [b]"
    and "map_of (unseen_word_dict st) w = Some a"
  shows "contribute F s i w r st =
     and_then (np_add F a b) (\<lambda>v. Inr (st\<lparr>
       unseen_word_dict := AList.update w v (unseen_word_dict st),
       unseen_word_count_dict :=
         AList.update w (case map_of (unseen_word_count_dict st) w of None \<Rightarrow> 1 | Some c \<Rightarrow> c + 1)
           (unseen_word_count_dict st)\<rparr>))"
proof -
  from assms(1) have cond: "r \<noteq> 0 \<and> 0 \<le> int i + r \<and> int i + r < int (length s)"
    and b: "map_of (word_embeds st) (s ! nat (int i + r)) = Some b"
    by (auto simp add: offset_contrib_def split: if_splits option.splits)
  show ?thesis
  proof (cases "np_add F a b")
    case (Inl e)
    with cond b assms(2) show ?thesis
      by (simp add: contribute_def has_key_def lookup_def)
  next
    case (Inr v)
    with cond b assms(2) show ?thesis
      by (cases "map_of (unseen_word_count_dict st) w")
        (simp_all add: contribute_def has_key_def lookup_def Let_def)
  qed
qed

lemma offset_contrib_cases:
  obtains "offset_contrib pre s i r = []" | b where "offset_contrib pre s i r = [b]"
proof -
  have "offset_contrib pre s i r = [] \<or> (\<exists>b. offset_contrib pre s i r = [b])"
    by (simp add: offset_contrib_def split: option.splits)
  with that show ?thesis by blast
qed

lemma tracks_contribute:
  assumes t: "tracks F cfg pre K C st"
    and key: "w \<in> K"
    and step: "contribute F s i w r st = Inr st'"
  shows "tracks F cfg pre K (C(w := C w @ offset_contrib pre s i r)) st'"
proof -
  note d = tracksD [OF t]
  show ?thesis
  proof (cases rule: offset_contrib_cases [of pre s i r])
    case 1
    with step d(1) have "st' = st" by (simp add: contribute_skip)
    with 1 t show ?thesis by simp
  next
    case (2 b)
    from key d(3) obtain a where a: "map_of (unseen_word_dict st) w = Some a"
      by (metis has_key_def has_key_iff not_Some_eq)
    from d(5) [OF a] have pre: "\<not> has_key pre w"
      and sum: "running_sum F (embedding_dim cfg) (C w) = Inr a" by simp_all
    from step 2 a d(1) obtain v where v: "np_add F a b = Inr v" and
      st': "st' = st\<lparr>
       unseen_word_dict := AList.update w v (unseen_word_dict st),
       unseen_word_count_dict :=
         AList.update w (case map_of (unseen_word_count_dict st) w of None \<Rightarrow> 1 | Some c \<Rightarrow> c + 1)
           (unseen_word_count_dict st)\<rparr>"
      by (auto simp add: contribute_add and_then_eq_Inr)
    have sum': "running_sum F (embedding_dim cfg) (C w @ [b]) = Inr v"
      using running_sum_snoc [OF sum] v by simp
    have keys: "fst ` set (AList.update w v (unseen_word_dict st)) = K"
      using key d(3) by (auto simp add: dom_update)
    show ?thesis
      unfolding tracks_def
    proof (intro conjI allI)
      show "word_embeds st' = pre" using d(1) by (simp add: st')
      show "distinct (map fst (unseen_word_dict st'))"
        using d(2) by (simp add: st' distinct_update)
      show "fst ` set (unseen_word_dict st') = K" using keys by (simp add: st')
    next
      fix x
      show "case map_of (unseen_word_dict st') x of
              None \<Rightarrow> (C(w := C w @ offset_contrib pre s i r)) x = []
            | Some a \<Rightarrow> \<not> has_key pre x \<and>
                running_sum F (embedding_dim cfg) ((C(w := C w @ offset_contrib pre s i r)) x) = Inr a"
      proof (cases "x = w")
        case True
        then show ?thesis using pre sum' 2 by (simp add: st' update_conv')
      next
        case False
        then show ?thesis using d(4) [of x] d(5) [of x]
          by (simp add: st' update_conv' split: option.splits)
      qed
      show "map_of (unseen_word_count_dict st') x =
            (if (C(w := C w @ offset_contrib pre s i r)) x = [] then None
             else Some (int (length ((C(w := C w @ offset_contrib pre s i r)) x))))"
      proof (cases "x = w")
        case True
        then show ?thesis using d(6) [of w] 2 by (simp add: st' update_conv')
      next
        case False
        then show ?thesis using d(6) [of x] by (simp add: st' update_conv')
      qed
    qed
  qed
qed

lemma tracks_window:
  "tracks F cfg pre K C st \<Longrightarrow> w \<in> K \<Longrightarrow>
   for_loop (contribute F s i w) rs st = Inr st' \<Longrightarrow>
   tracks F cfg pre K (C(w := C w @ concat (map (offset_contrib pre s i) rs))) st'"
proof (induction rs arbitrary: C st)
  case Nil
  then show ?case by simp
next
  case (Cons r rs)
  from Cons.prems(3) obtain st1 where
    step: "contribute F s i w r st = Inr st1" and
    rest: "for_loop (contribute F s i w) rs st1 = Inr st'"
    by (auto split: sum.splits)
  from tracks_contribute [OF Cons.prems(1,2) step]
  have "tracks F cfg pre K (C(w := C w @ offset_contrib pre s i r)) st1" .
  from Cons.IH [OF this Cons.prems(2) rest]
  have "tracks F cfg pre K
     ((C(w := C w @ offset_contrib pre s i r))
        (w := (C(w := C w @ offset_contrib pre s i r)) w @ concat (map (offset_contrib pre s i) rs)))
     st'" (is "tracks _ _ _ _ ?X _") .
  moreover have "(C(w := C w @ offset_contrib pre s i r))
        (w := (C(w := C w @ offset_contrib pre s i r)) w @ concat (map (offset_contrib pre s i) rs))
      = C(w := C w @ concat (map (offset_contrib pre s i) (r # rs)))"
    by (simp add: fun_eq_iff)
  ultimately show ?case by (simp only:)
qed

lemma tracks_word:
  assumes t: "tracks F cfg pre K C st"
    and step: "approximate_word F cfg s iw st = Inr st'"
  shows "tracks F cfg pre (if has_key pre (snd iw) then K else insert (snd iw) K)
           (\<lambda>x. C x @ word_contribs pre (window_size cfg) s x iw) st'"
proof -
  obtain i w where iw: "iw = (i, w)" by (cases iw)
  note d = tracksD [OF t]
  show ?thesis
  proof (cases "has_key pre w")
    case True
    with step d(1) have "st' = st" by (simp add: approximate_word_def iw)
    moreover have "(\<lambda>x. C x @ word_contribs pre (window_size cfg) s x iw) = C"
      using True by (auto simp add: word_contribs_def iw fun_eq_iff)
    ultimately show ?thesis using t True by (simp add: iw)
  next
    case False
    with step d(1) obtain st1 where
      ensure: "(if \<not> has_key (unseen_word_dict st) w then
               and_then (np_zeros F (embedding_dim cfg)) (\<lambda>z.
                 Inr (st\<lparr>unseen_word_dict := AList.update w z (unseen_word_dict st)\<rparr>))
             else Inr st) = Inr st1" and
      loop: "for_loop (contribute F s i w) [- window_size cfg .. window_size cfg] st1 = Inr st'"
      by (auto simp add: approximate_word_def iw and_then_eq_Inr)
    have t1: "tracks F cfg pre (insert w K) C st1"
    proof (cases "has_key (unseen_word_dict st) w")
      case True
      with ensure have "st1 = st" by simp
      moreover from True d(3) have "insert w K = K" by (auto simp add: has_key_iff)
      ultimately show ?thesis using t by simp
    next
      case absent: False
      with ensure obtain z where z: "np_zeros F (embedding_dim cfg) = Inr z"
        and st1: "st1 = st\<lparr>unseen_word_dict := AList.update w z (unseen_word_dict st)\<rparr>"
        by (auto simp add: and_then_eq_Inr)
      from absent have none: "map_of (unseen_word_dict st) w = None"
        by (simp add: has_key_def)
      from d(4) [OF none] have empty: "C w = []" .
      show ?thesis
        unfolding tracks_def
      proof (intro conjI allI)
        show "word_embeds st1 = pre" using d(1) by (simp add: st1)
        show "distinct (map fst (unseen_word_dict st1))"
          using d(2) by (simp add: st1 distinct_update)
        show "fst ` set (unseen_word_dict st1) = insert w K"
          using d(3) by (simp add: st1 dom_update)
      next
        fix x
        show "case map_of (unseen_word_dict st1) x of
              None \<Rightarrow> C x = []
            | Some a \<Rightarrow> \<not> has_key pre x \<and> running_sum F (embedding_dim cfg) (C x) = Inr a"
        proof (cases "x = w")
          case True
          then show ?thesis using False empty z
            by (simp add: st1 update_conv' running_sum_def)
        next
          case False
          then show ?thesis using d(4) [of x] d(5) [of x]
            by (simp add: st1 update_conv' split: option.splits)
        qed
        show "map_of (unseen_word_count_dict st1) x =
            (if C x = [] then None else Some (int (length (C x))))"
          using d(6) [of x] by (simp add: st1)
      qed
    qed
    from tracks_window [OF t1 _ loop]
    have "tracks F cfg pre (insert w K)
       (C(w := C w @ concat (map (offset_contrib pre s i) [- window_size cfg .. window_size cfg])))
       st'" by simp
    moreover have
      "C(w := C w @ concat (map (offset_contrib pre s i) [- window_size cfg .. window_size cfg]))
        = (\<lambda>x. C x @ word_contribs pre (window_size cfg) s x iw)"
      using False by (auto simp add: word_contribs_def window_contribs_def iw fun_eq_iff)
    ultimately show ?thesis using False by (simp only: iw snd_conv if_False)
  qed
qed

lemma tracks_words:
  "tracks F cfg pre K C st \<Longrightarrow> for_loop (approximate_word F cfg s) ps st = Inr st' \<Longrightarrow>
   tracks F cfg pre (K \<union> {w \<in> snd ` set ps. \<not> has_key pre w})
     (\<lambda>x. C x @ concat (map (word_contribs pre (window_size cfg) s x) ps)) st'"
proof (induction ps arbitrary: K C st)
  case Nil
  then show ?case by simp
next
  case (Cons iw ps)
  from Cons.prems(2) obtain st1 where
    step: "approximate_word F cfg s iw st = Inr st1" and
    rest: "for_loop (approximate_word F cfg s) ps st1 = Inr st'"
    by (auto split: sum.splits)
  from Cons.IH [OF tracks_word [OF Cons.prems(1) step] rest]
  have "tracks F cfg pre
     ((if has_key pre (snd iw) then K else insert (snd iw) K) \<union>
        {w \<in> snd ` set ps. \<not> has_key pre w})
     (\<lambda>x. (C x @ word_contribs pre (window_size cfg) s x iw) @
        concat (map (word_contribs pre (window_size cfg) s x) ps)) st'" .
  moreover have "(if has_key pre (snd iw) then K else insert (snd iw) K) \<union>
        {w \<in> snd ` set ps. \<not> has_key pre w} = K \<union> {w \<in> snd ` set (iw # ps). \<not> has_key pre w}"
    by auto
  moreover have "(\<lambda>x. (C x @ word_contribs pre (window_size cfg) s x iw) @
        concat (map (word_contribs pre (window_size cfg) s x) ps))
      = (\<lambda>x. C x @ concat (map (word_contribs pre (window_size cfg) s x) (iw # ps)))"
    by (simp add: fun_eq_iff)
  ultimately show ?case by (simp only:)
qed

lemma map_enumerate: "map f (enumerate 0 s) = map (\<lambda>i. f (i, s ! i)) [0..<length s]"
  by (rule nth_equalityI) (simp_all add: nth_enumerate_eq)

lemma snd_set_enumerate: "snd ` set (enumerate n s) = set s"
  by (induction s arbitrary: n) auto

lemma word_contribs_enumerate:
  "concat (map (word_contribs pre ws s x) (enumerate 0 s)) = unseen_contribs pre ws [s] x"
proof -
  have "map (word_contribs pre ws s x) (enumerate 0 s)
      = map (\<lambda>i. if has_key pre x then [] else if s ! i = x then window_contribs pre ws s i else [])
          [0..<length s]"
    unfolding map_enumerate by (rule map_cong) (auto simp add: word_contribs_def)
  also have "concat \<dots> = unseen_contribs pre ws [s] x"
    by (cases "has_key pre x") (simp_all add: unseen_contribs_def sentence_contribs_def)
  finally show ?thesis by simp
qed

lemma unseen_contribs_simps:
  "unseen_contribs pre ws [] x = []"
  "unseen_contribs pre ws (xs @ ys) x = unseen_contribs pre ws xs x @ unseen_contribs pre ws ys x"
  by (simp_all add: unseen_contribs_def)

lemma unseen_words_simps:
  "unseen_words pre [] = {}"
  "unseen_words pre (xs @ ys) = unseen_words pre xs \<union> unseen_words pre ys"
  by (auto simp add: unseen_words_def)

lemma tracks_sentence:
  assumes "tracks F cfg pre K C st" and "approximate_unseen F cfg s st = Inr st'"
  shows "tracks F cfg pre (K \<union> unseen_words pre [s])
           (\<lambda>x. C x @ unseen_contribs pre (window_size cfg) [s] x) st'"
proof -
  from tracks_words [OF assms(1) assms(2) [unfolded approximate_unseen_def]]
  show ?thesis
    by (simp only: word_contribs_enumerate snd_set_enumerate)
      (simp add: unseen_words_def)
qed

lemma tracks_sentences:
  "tracks F cfg pre K C st \<Longrightarrow> for_loop (approximate_unseen F cfg) sents st = Inr st' \<Longrightarrow>
   tracks F cfg pre (K \<union> unseen_words pre sents)
     (\<lambda>x. C x @ unseen_contribs pre (window_size cfg) sents x) st'"
proof (induction sents arbitrary: K C st)
  case Nil
  then show ?case by (simp add: unseen_contribs_simps unseen_words_simps)
next
  case (Cons s sents)
  from Cons.prems(2) obtain st1 where
    step: "approximate_unseen F cfg s st = Inr st1" and
    rest: "for_loop (approximate_unseen F cfg) sents st1 = Inr st'"
    by (auto split: sum.splits)
  from Cons.IH [OF tracks_sentence [OF Cons.prems(1) step] rest]
  have "tracks F cfg pre (K \<union> unseen_words pre [s] \<union> unseen_words pre sents)
     (\<lambda>x. (C x @ unseen_contribs pre (window_size cfg) [s] x) @
        unseen_contribs pre (window_size cfg) sents x) st'" .
  moreover have "K \<union> unseen_words pre [s] \<union> unseen_words pre sents
      = K \<union> unseen_words pre (s # sents)"
    using unseen_words_simps(2) [of pre "[s]" sents] by auto
  moreover have "(\<lambda>x. (C x @ unseen_contribs pre (window_size cfg) [s] x) @
        unseen_contribs pre (window_size cfg) sents x)
      = (\<lambda>x. C x @ unseen_contribs pre (window_size cfg) (s # sents) x)"
    using unseen_contribs_simps(2) [of pre "window_size cfg" "[s]" sents] by (simp add: fun_eq_iff)
  ultimately show ?case by (simp only:)
qed

lemma tracks_start:
  "tracks F cfg pre {} (\<lambda>x. [])
     \<lparr>word_embeds = pre, unseen_word_dict = [], unseen_word_count_dict = []\<rparr>"
  by (simp add: tracks_def)

lemma tracks_loads:
  assumes "load F cfg train \<lparr>word_embeds = pre, unseen_word_dict = [], unseen_word_count_dict = []\<rparr>
      = Inr (d1, st1)"
    and "load F cfg valid st1 = Inr (d2, st2)"
    and "load F cfg test st2 = Inr (d3, st3)"
  shows "tracks F cfg pre (unseen_words pre (sentences_of (d1 @ d2 @ d3)))
     (unseen_contribs pre (window_size cfg) (sentences_of (d1 @ d2 @ d3))) st3"
proof -
  let ?st0 = "\<lparr>word_embeds = pre, unseen_word_dict = [], unseen_word_count_dict = []\<rparr>"
  from assms have "for_loop (approximate_unseen F cfg) (sentences_of (d1 @ d2 @ d3)) ?st0 = Inr st3"
    by (simp add: sentences_of_append for_loop_append load_Inr(2))
  from tracks_sentences [OF tracks_start this] show ?thesis by simp
qed

section \<open>The merge loop\<close>

lemma merge_word_absent:
  "\<not> has_key (unseen_word_count_dict st) w \<Longrightarrow> merge_word F w (st, p) = Inr (st, p @ [w])"
  by (simp add: merge_word_def)

lemma merge_word_present:
  assumes "map_of (unseen_word_count_dict st) w = Some c"
    and "map_of (unseen_word_dict st) w = Some a"
  shows "merge_word F w (st, p) =
     Inr (st\<lparr>unseen_word_dict := AList.update w (np_div F a c) (unseen_word_dict st),
             word_embeds := AList.update w (np_div F a c) (word_embeds st)\<rparr>, p)"
  using assms by (simp add: merge_word_def has_key_def lookup_def update_conv')

lemma merged_cong:
  assumes "unseen_word_count_dict st1 = unseen_word_count_dict st"
    and "\<And>w. w \<in> set ks \<Longrightarrow> map_of (unseen_word_dict st1) w = map_of (unseen_word_dict st) w"
  shows "merged F st1 ks = merged F st ks"
  unfolding merged_def using assms by (auto intro!: map_cong)

lemma merge_loop:
  "distinct ks \<Longrightarrow> set ks \<subseteq> fst ` set (unseen_word_dict st) \<Longrightarrow>
   set ks \<inter> fst ` set (word_embeds st) = {} \<Longrightarrow>
   for_loop (merge_word F) ks (st, p) = Inr (st', p') \<Longrightarrow>
     unseen_word_count_dict st' = unseen_word_count_dict st \<and>
     word_embeds st' = word_embeds st @ merged F st ks \<and>
     p' = p @ filter (\<lambda>w. \<not> has_key (unseen_word_count_dict st) w) ks \<and>
     map fst (unseen_word_dict st') = map fst (unseen_word_dict st) \<and>
     (\<forall>w. \<not> has_key (unseen_word_count_dict st) w \<longrightarrow>
        map_of (unseen_word_dict st') w = map_of (unseen_word_dict st) w)"
proof (induction ks arbitrary: st p)
  case Nil
  then show ?case by (simp add: merged_def)
next
  case (Cons w ks)
  from Cons.prems(4) obtain st1 p1 where
    step: "merge_word F w (st, p) = Inr (st1, p1)" and
    rest: "for_loop (merge_word F) ks (st1, p1) = Inr (st', p')"
    by (auto split: sum.splits)
  from Cons.prems(1) have dist: "distinct ks" and notin: "w \<notin> set ks" by simp_all
  show ?case
  proof (cases "map_of (unseen_word_count_dict st) w")
    case None
    then have absent: "\<not> has_key (unseen_word_count_dict st) w" by (simp add: has_key_def)
    with step have "st1 = st" "p1 = p @ [w]" by (simp_all add: merge_word_absent)
    with Cons.IH [OF dist _ _ rest] Cons.prems(2,3) absent show ?thesis
      by (simp add: merged_def)
  next
    case (Some c)
    then have present: "has_key (unseen_word_count_dict st) w" by (simp add: has_key_def)
    from Cons.prems(2) obtain a where a: "map_of (unseen_word_dict st) w = Some a"
      by (metis has_key_def has_key_iff list.set_intros(1) not_Some_eq subsetD)
    from Cons.prems(3) have fresh: "w \<notin> fst ` set (word_embeds st)" by auto
    from step Some a have st1: "st1 =
        st\<lparr>unseen_word_dict := AList.update w (np_div F a c) (unseen_word_dict st),
           word_embeds := AList.update w (np_div F a c) (word_embeds st)\<rparr>"
      and p1: "p1 = p" by (simp_all add: merge_word_present)
    have keys1: "fst ` set (unseen_word_dict st1) = fst ` set (unseen_word_dict st)"
      using Cons.prems(2) by (auto simp add: st1 dom_update)
    have we1: "word_embeds st1 = word_embeds st @ [(w, np_div F a c)]"
      using fresh by (simp add: st1 update_absent)
    have "set ks \<subseteq> fst ` set (unseen_word_dict st1)"
      using Cons.prems(2) keys1 by simp
    moreover have "set ks \<inter> fst ` set (word_embeds st1) = {}"
      using Cons.prems(3) notin by (auto simp add: we1)
    ultimately have IH:
      "unseen_word_count_dict st' = unseen_word_count_dict st1"
      "word_embeds st' = word_embeds st1 @ merged F st1 ks"
      "p' = p1 @ filter (\<lambda>w. \<not> has_key (unseen_word_count_dict st1) w) ks"
      "map fst (unseen_word_dict st') = map fst (unseen_word_dict st1)"
      "\<And>x. \<not> has_key (unseen_word_count_dict st1) x \<Longrightarrow>
        map_of (unseen_word_dict st') x = map_of (unseen_word_dict st1) x"
      using Cons.IH [OF dist _ _ rest] by simp_all
    have cd1: "unseen_word_count_dict st1 = unseen_word_count_dict st" by (simp add: st1)
    have "merged F st1 ks = merged F st ks"
    proof (rule merged_cong [OF cd1])
      fix x assume "x \<in> set ks"
      with notin have "x \<noteq> w" by auto
      then show "map_of (unseen_word_dict st1) x = map_of (unseen_word_dict st) x"
        by (simp add: st1 update_conv')
    qed
    moreover have "merged F st (w # ks) = (w, np_div F a c) # merged F st ks"
      using present Some a by (simp add: merged_def)
    moreover have "map fst (unseen_word_dict st1) = map fst (unseen_word_dict st)"
      using Cons.prems(2) by (auto simp add: st1 update_keys)
    moreover have "map_of (unseen_word_dict st1) x = map_of (unseen_word_dict st) x"
      if "\<not> has_key (unseen_word_count_dict st) x" for x
      using that present by (auto simp add: st1 update_conv')
    ultimately show ?thesis
      using IH present by (simp add: cd1 we1 p1)
  qed
qed

lemma map_of_merged:
  "map_of (merged F st ks) w =
     (if w \<in> set ks \<and> has_key (unseen_word_count_dict st) w
      then Some (np_div F (the (map_of (unseen_word_dict st) w))
                   (the (map_of (unseen_word_count_dict st) w)))
      else None)"
  unfolding merged_def by (induction ks) auto

lemma keys_merged:
  "map fst (merged F st ks) = filter (has_key (unseen_word_count_dict st)) ks"
  by (simp add: merged_def comp_def)

lemma unseen_contribs_corpus:
  "\<not> has_key pre w \<Longrightarrow>
     unseen_contribs pre ws (sentences_of data) w = corpus_contribs pre ws w data"
  by (simp add: unseen_contribs_def corpus_contribs_def)

lemma get_total_sentences:
  assumes "get_total F cfg train valid test st = Inr t"
  shows "sentences_of (train_data t @ valid_data t @ test_data t) =
           file_sentences train @ file_sentences valid @ file_sentences test"
proof -
  from get_total_Inr [OF assms] obtain st1 st2 st3 where
    "load F cfg train st = Inr (train_data t, st1)"
    "load F cfg valid st1 = Inr (valid_data t, st2)"
    "load F cfg test st2 = Inr (test_data t, st3)"
    by auto
  then show ?thesis
    by (simp add: sentences_of_append load_sentences)
qed

lemma get_total_contribs:
  assumes "get_total F cfg train valid test st = Inr t"
  shows "corpus_contribs pre ws w (train_data t @ valid_data t @ test_data t) =
           files_contribs pre ws w train valid test"
  by (simp add: corpus_contribs_def files_contribs_def get_total_sentences [OF assms])

text \<open>What a returning \<open>get_total\<close> went through, for the proofs about its result.\<close>

lemma get_total_tracks:
  assumes "get_total F cfg train valid test
      \<lparr>word_embeds = pre, unseen_word_dict = [], unseen_word_count_dict = []\<rparr> = Inr t"
  obtains st3 where
    "tracks F cfg pre (unseen_words pre (sentences_of (train_data t @ valid_data t @ test_data t)))
       (unseen_contribs pre (window_size cfg)
          (sentences_of (train_data t @ valid_data t @ test_data t))) st3"
    and "unseen_word_count_dict (final t) = unseen_word_count_dict st3"
    and "word_embeds (final t) = pre @ merged F st3 (map fst (unseen_word_dict st3))"
    and "printed_words t =
       filter (\<lambda>w. \<not> has_key (unseen_word_count_dict st3) w) (map fst (unseen_word_dict st3))"
    and "map fst (unseen_word_dict (final t)) = map fst (unseen_word_dict st3)"
    and "\<And>w. \<not> has_key (unseen_word_count_dict st3) w \<Longrightarrow>
        map_of (unseen_word_dict (final t)) w = map_of (unseen_word_dict st3) w"
proof -
  from get_total_Inr [OF assms] obtain st1 st2 st3 where
    l: "load F cfg train \<lparr>word_embeds = pre, unseen_word_dict = [], unseen_word_count_dict = []\<rparr>
          = Inr (train_data t, st1)"
       "load F cfg valid st1 = Inr (valid_data t, st2)"
       "load F cfg test st2 = Inr (test_data t, st3)" and
    m: "for_loop (merge_word F) (map fst (unseen_word_dict st3)) (st3, [])
          = Inr (final t, printed_words t)"
    by auto
  note tr = tracks_loads [OF l]
  note d = tracksD [OF tr]
  have "set (map fst (unseen_word_dict st3)) \<inter> fst ` set (word_embeds st3) = {}"
  proof -
    have "\<not> has_key pre w" if "w \<in> set (map fst (unseen_word_dict st3))" for w
    proof -
      from that obtain a where "map_of (unseen_word_dict st3) w = Some a"
        by (metis has_key_def has_key_iff not_Some_eq set_map)
      from d(5) [OF this] show ?thesis by simp
    qed
    then show ?thesis unfolding d(1) by (auto simp add: has_key_iff)
  qed
  from merge_loop [OF d(2) _ this m] d(1) that [OF tr] show ?thesis by simp
qed

section \<open>The approximation of unseen words\<close>

lemma merged_entry:
  assumes total: "get_total F cfg train valid test
      \<lparr>word_embeds = pre, unseen_word_dict = [], unseen_word_count_dict = []\<rparr> = Inr t"
    and oov: "\<not> has_key pre w"
    and some: "corpus_contribs pre (window_size cfg) w
                 (train_data t @ valid_data t @ test_data t) \<noteq> []"
  shows "\<exists>s. running_sum F (embedding_dim cfg)
             (corpus_contribs pre (window_size cfg) w (train_data t @ valid_data t @ test_data t))
           = Inr s \<and>
         map_of (word_embeds (final t)) w =
           Some (np_div F s (int (length
             (corpus_contribs pre (window_size cfg) w
                (train_data t @ valid_data t @ test_data t)))))"
proof -
  let ?cs = "corpus_contribs pre (window_size cfg) w (train_data t @ valid_data t @ test_data t)"
  from get_total_tracks [OF total] obtain st3 where
    tr: "tracks F cfg pre (unseen_words pre (sentences_of (train_data t @ valid_data t @ test_data t)))
       (unseen_contribs pre (window_size cfg)
          (sentences_of (train_data t @ valid_data t @ test_data t))) st3"
    and we: "word_embeds (final t) = pre @ merged F st3 (map fst (unseen_word_dict st3))"
    by blast
  note d = tracksD [OF tr]
  note cs = unseen_contribs_corpus [OF oov, of "window_size cfg"]
  from d(6) [of w] some have count: "map_of (unseen_word_count_dict st3) w = Some (int (length ?cs))"
    by (simp add: cs)
  from d(4) [of w] some obtain a where a: "map_of (unseen_word_dict st3) w = Some a"
    by (cases "map_of (unseen_word_dict st3) w") (simp_all add: cs)
  from d(5) [OF a] have sum: "running_sum F (embedding_dim cfg) ?cs = Inr a"
    by (simp add: cs)
  from a have key: "w \<in> set (map fst (unseen_word_dict st3))"
    by (force dest: map_of_SomeD)
  from oov have "map_of pre w = None" by (simp add: has_key_def)
  then have "map_of (word_embeds (final t)) w = map_of (merged F st3 (map fst (unseen_word_dict st3))) w"
    by (simp add: we map_add_def)
  also have "\<dots> = Some (np_div F a (int (length ?cs)))"
    using key count a by (simp add: map_of_merged has_key_def)
  finally show ?thesis using sum by blast
qed

lemma final_count:
  assumes total: "get_total F cfg train valid test
      \<lparr>word_embeds = pre, unseen_word_dict = [], unseen_word_count_dict = []\<rparr> = Inr t"
    and oov: "\<not> has_key pre w"
  shows "map_of (unseen_word_count_dict (final t)) w =
     (if files_contribs pre (window_size cfg) w train valid test = [] then None
      else Some (int (length (files_contribs pre (window_size cfg) w train valid test))))"
proof -
  from get_total_tracks [OF total] obtain st3 where
    tr: "tracks F cfg pre (unseen_words pre (sentences_of (train_data t @ valid_data t @ test_data t)))
       (unseen_contribs pre (window_size cfg)
          (sentences_of (train_data t @ valid_data t @ test_data t))) st3"
    and cd: "unseen_word_count_dict (final t) = unseen_word_count_dict st3"
    by blast
  from tracksD(6) [OF tr, of w] show ?thesis
    by (simp add: cd unseen_contribs_corpus [OF oov] get_total_contribs [OF total])
qed

lemma np_zeros_Inr: "np_zeros F n = Inr a \<longleftrightarrow> 0 \<le> n \<and> a = replicate (nat n) (fzero F)"
  by (auto simp add: np_zeros_def)

lemma unmerged_entry:
  assumes total: "get_total F cfg train valid test
      \<lparr>word_embeds = pre, unseen_word_dict = [], unseen_word_count_dict = []\<rparr> = Inr t"
    and oov: "\<not> has_key pre w"
    and seen: "w \<in> \<Union> (set ` set (sentences_of (train_data t @ valid_data t @ test_data t)))"
    and none: "corpus_contribs pre (window_size cfg) w
                 (train_data t @ valid_data t @ test_data t) = []"
  shows "map_of (word_embeds (final t)) w = None"
    and "w \<in> set (printed_words t)"
    and "map_of (unseen_word_dict (final t)) w = Some (replicate (nat (embedding_dim cfg)) (fzero F))"
    and "map_of (unseen_word_count_dict (final t)) w = None"
proof -
  from get_total_tracks [OF total] obtain st3 where
    tr: "tracks F cfg pre (unseen_words pre (sentences_of (train_data t @ valid_data t @ test_data t)))
       (unseen_contribs pre (window_size cfg)
          (sentences_of (train_data t @ valid_data t @ test_data t))) st3"
    and cd: "unseen_word_count_dict (final t) = unseen_word_count_dict st3"
    and we: "word_embeds (final t) = pre @ merged F st3 (map fst (unseen_word_dict st3))"
    and pr: "printed_words t =
       filter (\<lambda>w. \<not> has_key (unseen_word_count_dict st3) w) (map fst (unseen_word_dict st3))"
    and ud: "\<And>w. \<not> has_key (unseen_word_count_dict st3) w \<Longrightarrow>
        map_of (unseen_word_dict (final t)) w = map_of (unseen_word_dict st3) w"
    by blast
  note d = tracksD [OF tr]
  note cs = unseen_contribs_corpus [OF oov, of "window_size cfg"]
  from d(6) [of w] none have count: "map_of (unseen_word_count_dict st3) w = None"
    by (simp add: cs)
  then have absent: "\<not> has_key (unseen_word_count_dict st3) w" by (simp add: has_key_def)
  from seen oov have key: "w \<in> fst ` set (unseen_word_dict st3)"
    unfolding d(3) by (auto simp add: unseen_words_def)
  then obtain a where a: "map_of (unseen_word_dict st3) w = Some a"
    by (metis has_key_def has_key_iff not_Some_eq)
  from d(5) [OF a] none have "np_zeros F (embedding_dim cfg) = Inr a"
    by (simp add: cs running_sum_Nil)
  then have zero: "a = replicate (nat (embedding_dim cfg)) (fzero F)"
    by (simp add: np_zeros_Inr)
  from oov have "map_of pre w = None" by (simp add: has_key_def)
  then show "map_of (word_embeds (final t)) w = None"
    using absent by (simp add: we map_add_def map_of_merged)
  show "w \<in> set (printed_words t)" using key absent by (simp add: pr)
  show "map_of (unseen_word_dict (final t)) w = Some (replicate (nat (embedding_dim cfg)) (fzero F))"
    using ud [OF absent] a zero by simp
  show "map_of (unseen_word_count_dict (final t)) w = None" using count by (simp add: cd)
qed

lemma ex_get_total_start:
  "get_total rat_ops ex_cfg ex_train ex_valid ex_test
     \<lparr>word_embeds = ex_pre, unseen_word_dict = [], unseen_word_count_dict = []\<rparr> = Inr ex_loaded"
  using ex_get_total by (simp add: ex_start_def)

lemma ex_load_probe:
  "load rat_ops ex_cfg ex_probe
      \<lparr>word_embeds = ex_pre, unseen_word_dict = [(''b'', [5, 0]), (''x'', [0, 0])],
       unseen_word_count_dict = [(''b'', 3)]\<rparr> =
     Inr ([([''a'', ''q''], [''z''], 1)],
          \<lparr>word_embeds = ex_pre,
           unseen_word_dict = [(''b'', [5, 0]), (''x'', [0, 0]), (''q'', [1, 0]), (''z'', [0, 0])],
           unseen_word_count_dict = [(''b'', 3), (''q'', 1)]\<rparr>)"
  by (simp add: load_def load_line_def approximate_unseen_def approximate_word_def
      contribute_def lookup_def has_key_def np_zeros_def np_add_def
      label_dict_def ex_probe_def ex_cfg_def ex_pre_def rat_ops_def tab_def nl_def
      rstrip_def is_space_def tokens_def upto.simps eval_nat_numeral)

lemma ex_get_total_probe:
  "get_total rat_ops ex_cfg ex_train ex_valid ex_probe
     \<lparr>word_embeds = ex_pre, unseen_word_dict = [], unseen_word_count_dict = []\<rparr>
   = Inr ex_loaded_probe"
  using ex_load_train
  by (simp add: get_total_def ex_start_def ex_load_valid ex_load_probe)
    (simp add: merge_word_def lookup_def has_key_def np_div_def rat_ops_def ex_pre_def
      ex_loaded_probe_def)

lemma ex_file_sentences:
  "file_sentences ex_train = [ [''a'', ''b'', ''c''], [''x'', ''b'']]"
  "file_sentences ex_valid = [ [''b'', ''a''], [''c'']]"
  "file_sentences ex_probe = [ [''a'', ''q''], [''z'']]"
  by (simp_all add: file_sentences_def ex_train_def ex_valid_def ex_probe_def tab_def nl_def
      rstrip_def is_space_def tokens_def)

lemma ex_files_contribs:
  "files_contribs ex_pre (window_size ex_cfg) ''q'' ex_train ex_valid ex_probe = [ [1, 0]]"
  "files_contribs ex_pre (window_size ex_cfg) ''b'' ex_train ex_valid ex_probe
     = [ [1, 0], [3, 0], [1, 0]]"
  "files_contribs ex_pre (window_size ex_cfg) ''z'' ex_train ex_valid ex_probe = []"
  by (simp_all add: files_contribs_def ex_file_sentences sentence_contribs_def
      window_contribs_def offset_contrib_def ex_pre_def ex_cfg_def upto.simps upt_rec [of 0])

text \<open>
  Claim C1. Let \<open>get_total\<close> return on the three partition files, from the pretrained
  table \<open>pre\<close> and empty accumulators, and let \<open>w\<close> be a word outside \<open>pre\<close> with at
  least one contribution in the sentences of the files, train, valid and test: one for
  each occurrence of \<open>w\<close> at a position \<open>i\<close> of a premise or hypothesis of a retained
  line and each offset \<open>r\<close> from \<open>- window_size\<close> to \<open>window_size\<close>, other than 0, with
  \<open>i + r\<close> a position of the sentence whose token is in \<open>pre\<close>. Then the final table
  maps \<open>w\<close> to the running sum of these pretrained vectors, from the zero vector and in
  the order of the scan, divided by their number, which is the count that
  \<open>unseen_word_count_dict\<close> holds for \<open>w\<close>.
\<close>

theorem oov_average:
  assumes "get_total F cfg train valid test
      \<lparr>word_embeds = pre, unseen_word_dict = [], unseen_word_count_dict = []\<rparr> = Inr t"
    and "\<not> has_key pre w"
    and "files_contribs pre (window_size cfg) w train valid test \<noteq> []"
  shows "map_of (unseen_word_count_dict (final t)) w =
           Some (int (length (files_contribs pre (window_size cfg) w train valid test))) \<and>
         (\<exists>s. running_sum F (embedding_dim cfg)
             (files_contribs pre (window_size cfg) w train valid test) = Inr s \<and>
           map_of (word_embeds (final t)) w =
             Some (np_div F s
               (int (length (files_contribs pre (window_size cfg) w train valid test)))))"
proof -
  note files = get_total_contribs [OF assms(1), of pre "window_size cfg" w]
  from assms(3) have "corpus_contribs pre (window_size cfg) w
      (train_data t @ valid_data t @ test_data t) \<noteq> []"
    by (simp add: files)
  from merged_entry [OF assms(1,2) this]
  have "\<exists>s. running_sum F (embedding_dim cfg)
             (files_contribs pre (window_size cfg) w train valid test) = Inr s \<and>
           map_of (word_embeds (final t)) w =
             Some (np_div F s
               (int (length (files_contribs pre (window_size cfg) w train valid test))))"
    by (simp add: files)
  moreover from final_count [OF assms(1,2)] assms(3)
  have "map_of (unseen_word_count_dict (final t)) w =
           Some (int (length (files_contribs pre (window_size cfg) w train valid test)))"
    by simp
  ultimately show ?thesis by blast
qed

theorem oov_average_witness:
  "get_total rat_ops ex_cfg ex_train ex_valid ex_probe
     \<lparr>word_embeds = ex_pre, unseen_word_dict = [], unseen_word_count_dict = []\<rparr>
     = Inr ex_loaded_probe \<and>
   \<not> has_key ex_pre ''q'' \<and>
   files_contribs ex_pre (window_size ex_cfg) ''q'' ex_train ex_valid ex_probe = [ [1, 0]] \<and>
   running_sum rat_ops (embedding_dim ex_cfg) [ [1, 0]] = Inr [1, 0] \<and>
   map_of (unseen_word_count_dict (final ex_loaded_probe)) ''q'' = Some 1 \<and>
   map_of (word_embeds (final ex_loaded_probe)) ''q'' = Some (np_div rat_ops [1, 0] 1) \<and>
   \<not> has_key ex_pre ''b'' \<and>
   files_contribs ex_pre (window_size ex_cfg) ''b'' ex_train ex_valid ex_probe
     = [ [1, 0], [3, 0], [1, 0]] \<and>
   running_sum rat_ops (embedding_dim ex_cfg) [ [1, 0], [3, 0], [1, 0]] = Inr [5, 0] \<and>
   map_of (word_embeds (final ex_loaded_probe)) ''b'' = Some (np_div rat_ops [5, 0] 3)"
proof -
  have oov: "\<not> has_key ex_pre ''q''" "\<not> has_key ex_pre ''b''"
    by (simp_all add: has_key_def ex_pre_def)
  have some: "files_contribs ex_pre (window_size ex_cfg) ''q'' ex_train ex_valid ex_probe \<noteq> []"
    "files_contribs ex_pre (window_size ex_cfg) ''b'' ex_train ex_valid ex_probe \<noteq> []"
    by (simp_all add: ex_files_contribs)
  have sum: "running_sum rat_ops (embedding_dim ex_cfg) [ [1, 0]] = Inr [1, 0]"
    "running_sum rat_ops (embedding_dim ex_cfg) [ [1, 0], [3, 0], [1, 0]] = Inr [5, 0]"
    by (simp_all add: running_sum_def np_zeros_def np_add_def rat_ops_def ex_cfg_def
        eval_nat_numeral)
  from oov_average [OF ex_get_total_probe oov(1) some(1)] sum(1)
  have q: "map_of (word_embeds (final ex_loaded_probe)) ''q'' = Some (np_div rat_ops [1, 0] 1)"
    and q1: "map_of (unseen_word_count_dict (final ex_loaded_probe)) ''q'' = Some 1"
    by (simp_all add: ex_files_contribs)
  from oov_average [OF ex_get_total_probe oov(2) some(2)] sum(2)
  have b: "map_of (word_embeds (final ex_loaded_probe)) ''b'' = Some (np_div rat_ops [5, 0] 3)"
    by (simp add: ex_files_contribs)
  from ex_get_total_probe oov ex_files_contribs(1,2) sum q q1 b show ?thesis by blast
qed

lemma get_total_seen:
  assumes "get_total F cfg train valid test st = Inr t"
    and "w \<in> \<Union> (set ` set (file_sentences train @ file_sentences valid @ file_sentences test))"
  shows "w \<in> \<Union> (set ` set (sentences_of (train_data t @ valid_data t @ test_data t)))"
  using assms(2) unfolding get_total_sentences [OF assms(1)] .

text \<open>
  Claim C2, as the code has it. Let \<open>get_total\<close> return on the three partition files,
  from the pretrained table \<open>pre\<close> and empty accumulators, and let \<open>w\<close> be a word outside
  \<open>pre\<close> that occurs in a premise or hypothesis of a retained line of one of the files.
  If \<open>w\<close> has a contribution, its count is the number of its contributions and the
  final table maps it to their average. If it has none, it has no count and the final
  table has no entry for \<open>w\<close>: the merge loop prints the word, and its zero vector of
  dimension \<open>embedding_dim\<close> stays in \<open>unseen_word_dict\<close> only.
\<close>

theorem oov_coverage:
  assumes "get_total F cfg train valid test
      \<lparr>word_embeds = pre, unseen_word_dict = [], unseen_word_count_dict = []\<rparr> = Inr t"
    and "\<not> has_key pre w"
    and "w \<in> \<Union> (set ` set (file_sentences train @ file_sentences valid @ file_sentences test))"
  shows "if files_contribs pre (window_size cfg) w train valid test = []
         then map_of (unseen_word_count_dict (final t)) w = None \<and>
              map_of (word_embeds (final t)) w = None \<and>
              w \<in> set (printed_words t) \<and>
              map_of (unseen_word_dict (final t)) w =
                Some (replicate (nat (embedding_dim cfg)) (fzero F))
         else map_of (unseen_word_count_dict (final t)) w =
                Some (int (length (files_contribs pre (window_size cfg) w train valid test))) \<and>
              (\<exists>s. running_sum F (embedding_dim cfg)
                 (files_contribs pre (window_size cfg) w train valid test) = Inr s \<and>
               map_of (word_embeds (final t)) w =
                 Some (np_div F s
                   (int (length (files_contribs pre (window_size cfg) w train valid test)))))"
proof -
  note files = get_total_contribs [OF assms(1), of pre "window_size cfg" w]
  note seen = get_total_seen [OF assms(1,3)]
  show ?thesis
  proof (cases "files_contribs pre (window_size cfg) w train valid test = []")
    case True
    then have "corpus_contribs pre (window_size cfg) w
        (train_data t @ valid_data t @ test_data t) = []"
      by (simp add: files)
    from unmerged_entry [OF assms(1,2) seen this] True show ?thesis by simp
  next
    case False
    then have "corpus_contribs pre (window_size cfg) w
        (train_data t @ valid_data t @ test_data t) \<noteq> []"
      by (simp add: files)
    from merged_entry [OF assms(1,2) this] final_count [OF assms(1,2)] False show ?thesis
      by (simp add: files)
  qed
qed

theorem oov_coverage_witness:
  "get_total rat_ops ex_cfg ex_train ex_valid ex_probe
     \<lparr>word_embeds = ex_pre, unseen_word_dict = [], unseen_word_count_dict = []\<rparr>
     = Inr ex_loaded_probe \<and>
   \<not> has_key ex_pre ''z'' \<and>
   ''z'' \<in> \<Union> (set ` set (file_sentences ex_train @ file_sentences ex_valid @
                             file_sentences ex_probe)) \<and>
   files_contribs ex_pre (window_size ex_cfg) ''z'' ex_train ex_valid ex_probe = [] \<and>
   map_of (unseen_word_count_dict (final ex_loaded_probe)) ''z'' = None \<and>
   map_of (word_embeds (final ex_loaded_probe)) ''z'' = None \<and>
   ''z'' \<in> set (printed_words ex_loaded_probe) \<and>
   map_of (unseen_word_dict (final ex_loaded_probe)) ''z'' =
     Some (replicate (nat (embedding_dim ex_cfg)) (fzero rat_ops)) \<and>
   \<not> has_key ex_pre ''q'' \<and>
   ''q'' \<in> \<Union> (set ` set (file_sentences ex_train @ file_sentences ex_valid @
                             file_sentences ex_probe)) \<and>
   map_of (word_embeds (final ex_loaded_probe)) ''q'' = Some (np_div rat_ops [1, 0] 1)"
proof -
  have oov: "\<not> has_key ex_pre ''z''" "\<not> has_key ex_pre ''q''"
    by (simp_all add: has_key_def ex_pre_def)
  have seen:
    "''z'' \<in> \<Union> (set ` set (file_sentences ex_train @ file_sentences ex_valid @
                             file_sentences ex_probe))"
    "''q'' \<in> \<Union> (set ` set (file_sentences ex_train @ file_sentences ex_valid @
                             file_sentences ex_probe))"
    by (simp_all add: ex_file_sentences)
  have sum: "running_sum rat_ops (embedding_dim ex_cfg) [ [1, 0]] = Inr [1, 0]"
    by (simp add: running_sum_def np_zeros_def np_add_def rat_ops_def ex_cfg_def
        eval_nat_numeral)
  from oov_coverage [OF ex_get_total_probe oov(1) seen(1)]
  have z: "map_of (unseen_word_count_dict (final ex_loaded_probe)) ''z'' = None \<and>
   map_of (word_embeds (final ex_loaded_probe)) ''z'' = None \<and>
   ''z'' \<in> set (printed_words ex_loaded_probe) \<and>
   map_of (unseen_word_dict (final ex_loaded_probe)) ''z'' =
     Some (replicate (nat (embedding_dim ex_cfg)) (fzero rat_ops))"
    by (simp only: ex_files_contribs if_True)
  from oov_coverage [OF ex_get_total_probe oov(2) seen(2)] sum
  have q: "map_of (word_embeds (final ex_loaded_probe)) ''q'' = Some (np_div rat_ops [1, 0] 1)"
    by (simp add: ex_files_contribs)
  from ex_get_total_probe oov seen ex_files_contribs(3) z q show ?thesis by blast
qed

text \<open>
  Claim C2 as the specification states it fails on the small corpus: the word \<open>x\<close>
  of the training hypothesis is in the word set and not in the pretrained table, its only
  neighbour \<open>b\<close> is not pretrained either, and after the construction the table has no
  entry for it.
\<close>

theorem zero_count_word_uncovered:
  "init rat_ops ex_cfg ex_train ex_valid ex_test ex_glove =
     Inr \<lparr>word_set = {''a'', ''b'', ''c'', ''x''}, loaded = ex_loaded\<rparr> \<and>
   get_glove rat_ops {''a'', ''b'', ''c'', ''x''} ex_glove = Inr ex_pre \<and>
   train_data ex_loaded = [([''a'', ''b'', ''c''], [''x'', ''b''], 2)] \<and>
   map_of ex_pre ''x'' = None \<and>
   map_of (unseen_word_count_dict (final ex_loaded)) ''x'' = None \<and>
   map_of (word_embeds (final ex_loaded)) ''x'' = None"
  using ex_init ex_get_glove by (simp add: ex_loaded_def ex_pre_def)

text \<open>
  Claim C3. When \<open>get_total\<close> returns from the pretrained table \<open>pre\<close> and empty
  accumulators, the final table is \<open>pre\<close> followed by the entries of the merge: the
  merge changes no entry of \<open>pre\<close>, so a word of \<open>pre\<close> keeps its vector; it writes each
  of its keys once, so the keys of the new entries are distinct; and none of them was a
  key of \<open>pre\<close>.
\<close>

theorem merge_frame:
  assumes "get_total F cfg train valid test
      \<lparr>word_embeds = pre, unseen_word_dict = [], unseen_word_count_dict = []\<rparr> = Inr t"
  shows "\<exists>new. word_embeds (final t) = pre @ new \<and>
           distinct (map fst new) \<and>
           (\<forall>k \<in> set (map fst new). \<not> has_key pre k) \<and>
           (\<forall>w v. map_of pre w = Some v \<longrightarrow> map_of (word_embeds (final t)) w = Some v)"
proof -
  from get_total_tracks [OF assms] obtain st3 where
    tr: "tracks F cfg pre (unseen_words pre (sentences_of (train_data t @ valid_data t @ test_data t)))
       (unseen_contribs pre (window_size cfg)
          (sentences_of (train_data t @ valid_data t @ test_data t))) st3"
    and we: "word_embeds (final t) = pre @ merged F st3 (map fst (unseen_word_dict st3))"
    by blast
  note d = tracksD [OF tr]
  let ?new = "merged F st3 (map fst (unseen_word_dict st3))"
  have "distinct (map fst ?new)"
    using d(2) by (simp add: keys_merged)
  moreover have "\<not> has_key pre k" if "k \<in> set (map fst ?new)" for k
  proof -
    from that have "k \<in> fst ` set (unseen_word_dict st3)" by (auto simp add: keys_merged)
    then obtain a where "map_of (unseen_word_dict st3) k = Some a"
      by (metis has_key_def has_key_iff not_Some_eq)
    from d(5) [OF this] show ?thesis by simp
  qed
  moreover have "map_of (word_embeds (final t)) w = Some v" if "map_of pre w = Some v" for w v
    using that by (simp add: we map_add_def)
  ultimately show ?thesis using we by blast
qed

theorem merge_frame_witness:
  "get_total rat_ops ex_cfg ex_train ex_valid ex_test
     \<lparr>word_embeds = ex_pre, unseen_word_dict = [], unseen_word_count_dict = []\<rparr> = Inr ex_loaded \<and>
   word_embeds (final ex_loaded) = ex_pre @ [(''b'', [5 / 3, 0])] \<and>
   (\<exists>new. word_embeds (final ex_loaded) = ex_pre @ new \<and>
           distinct (map fst new) \<and>
           (\<forall>k \<in> set (map fst new). \<not> has_key ex_pre k) \<and>
           (\<forall>w v. map_of ex_pre w = Some v \<longrightarrow> map_of (word_embeds (final ex_loaded)) w = Some v))"
proof -
  have "word_embeds (final ex_loaded) = ex_pre @ [(''b'', [5 / 3, 0])]"
    by (simp add: ex_loaded_def ex_pre_def)
  with ex_get_total_start merge_frame [OF ex_get_total_start] show ?thesis by blast
qed

section \<open>The contribution counts\<close>

lemma contribute_count:
  assumes "contribute F s i w r st = Inr st'"
  shows "unseen_word_count_dict st' = unseen_word_count_dict st \<or>
     unseen_word_count_dict st' =
       AList.update w (case map_of (unseen_word_count_dict st) w of None \<Rightarrow> 1 | Some c \<Rightarrow> c + 1)
         (unseen_word_count_dict st)"
proof (cases rule: offset_contrib_cases [of "word_embeds st" s i r])
  case 1
  with assms show ?thesis by (simp add: contribute_skip)
next
  case (2 b)
  from assms 2 obtain a where a: "map_of (unseen_word_dict st) w = Some a"
    by (cases "map_of (unseen_word_dict st) w")
      (auto simp add: contribute_def lookup_def offset_contrib_def has_key_def
        split: if_splits option.splits)
  from assms show ?thesis
    by (auto simp add: contribute_add [OF 2 a] and_then_eq_Inr)
qed

text \<open>
  Claim C10. The loop body \<open>contribute\<close>, the only writer of
  \<open>unseen_word_count_dict\<close>, keeps every stored count positive: it stores 1 with the
  first contribution of a word and adds 1 with each later one. Hence after the three
  scans from empty accumulators every stored count is positive, and is the number of
  the contributions of its word. The merge loop does not divide for a word without a
  count, and for a word with the count \<open>c\<close> it divides the running sum by \<open>c\<close>, so it
  never divides by zero.
\<close>

theorem counts_positive:
  "((\<forall>x c. map_of (unseen_word_count_dict st) x = Some c \<longrightarrow> 0 < c) \<and>
    contribute F s i w r st = Inr st' \<longrightarrow>
      (\<forall>x c. map_of (unseen_word_count_dict st') x = Some c \<longrightarrow> 0 < c)) \<and>
   (get_total F cfg train valid test
      \<lparr>word_embeds = pre, unseen_word_dict = [], unseen_word_count_dict = []\<rparr> = Inr t \<longrightarrow>
      (\<forall>x c. map_of (unseen_word_count_dict (final t)) x = Some c \<longrightarrow>
         0 < c \<and> \<not> has_key pre x \<and>
         c = int (length (corpus_contribs pre (window_size cfg) x
                            (train_data t @ valid_data t @ test_data t))))) \<and>
   (\<not> has_key (unseen_word_count_dict st) w \<longrightarrow>
      merge_word F w (st, p) = Inr (st, p @ [w])) \<and>
   (map_of (unseen_word_count_dict st) w = Some c \<and> map_of (unseen_word_dict st) w = Some a \<longrightarrow>
      merge_word F w (st, p) =
        Inr (st\<lparr>unseen_word_dict := AList.update w (np_div F a c) (unseen_word_dict st),
                word_embeds := AList.update w (np_div F a c) (word_embeds st)\<rparr>, p))"
proof (intro conjI impI allI)
  fix x c
  assume "(\<forall>x c. map_of (unseen_word_count_dict st) x = Some c \<longrightarrow> 0 < c) \<and>
    contribute F s i w r st = Inr st'"
  then have pos: "\<And>x c. map_of (unseen_word_count_dict st) x = Some c \<Longrightarrow> 0 < c"
    and step: "contribute F s i w r st = Inr st'" by blast+
  assume c: "map_of (unseen_word_count_dict st') x = Some c"
  from contribute_count [OF step] show "0 < c"
  proof
    assume "unseen_word_count_dict st' = unseen_word_count_dict st"
    with c pos show ?thesis by simp
  next
    assume upd: "unseen_word_count_dict st' =
       AList.update w (case map_of (unseen_word_count_dict st) w of None \<Rightarrow> 1 | Some c \<Rightarrow> c + 1)
         (unseen_word_count_dict st)"
    show ?thesis
    proof (cases "x = w")
      case True
      with c upd have "c = (case map_of (unseen_word_count_dict st) w of None \<Rightarrow> 1 | Some c \<Rightarrow> c + 1)"
        by (simp add: update_conv')
      then show ?thesis using pos [of w]
        by (cases "map_of (unseen_word_count_dict st) w") auto
    next
      case False
      with c upd pos show ?thesis by (simp add: update_conv')
    qed
  qed
next
  fix x c
  assume total: "get_total F cfg train valid test
      \<lparr>word_embeds = pre, unseen_word_dict = [], unseen_word_count_dict = []\<rparr> = Inr t"
    and c: "map_of (unseen_word_count_dict (final t)) x = Some c"
  from get_total_tracks [OF total] obtain st3 where
    tr: "tracks F cfg pre (unseen_words pre (sentences_of (train_data t @ valid_data t @ test_data t)))
       (unseen_contribs pre (window_size cfg)
          (sentences_of (train_data t @ valid_data t @ test_data t))) st3"
    and cd: "unseen_word_count_dict (final t) = unseen_word_count_dict st3"
    by blast
  let ?C = "unseen_contribs pre (window_size cfg)
          (sentences_of (train_data t @ valid_data t @ test_data t)) x"
  from tracksD(6) [OF tr, of x] c have some: "?C \<noteq> []" and len: "c = int (length ?C)"
    by (simp_all add: cd split: if_splits)
  from some have oov: "\<not> has_key pre x"
    by (auto simp add: unseen_contribs_def)
  show "0 < c" using some len by simp
  show "\<not> has_key pre x" by (rule oov)
  show "c = int (length (corpus_contribs pre (window_size cfg) x
                            (train_data t @ valid_data t @ test_data t)))"
    using len by (simp add: unseen_contribs_corpus [OF oov])
next
  assume "\<not> has_key (unseen_word_count_dict st) w"
  then show "merge_word F w (st, p) = Inr (st, p @ [w])" by (rule merge_word_absent)
next
  assume "map_of (unseen_word_count_dict st) w = Some c \<and> map_of (unseen_word_dict st) w = Some a"
  then show "merge_word F w (st, p) =
        Inr (st\<lparr>unseen_word_dict := AList.update w (np_div F a c) (unseen_word_dict st),
                word_embeds := AList.update w (np_div F a c) (word_embeds st)\<rparr>, p)"
    by (simp add: merge_word_present)
qed

lemma ex_contribute: "contribute rat_ops [''a'', ''b'', ''c''] 1 ''b'' 1 ex_mid = Inr ex_mid'"
  by (simp add: contribute_def ex_mid_def ex_mid'_def ex_pre_def has_key_def lookup_def
      np_add_def rat_ops_def)

theorem counts_positive_witness:
  "contribute rat_ops [''a'', ''b'', ''c''] 1 ''b'' 1 ex_mid = Inr ex_mid' \<and>
   map_of (unseen_word_count_dict ex_mid) ''b'' = Some 1 \<and>
   map_of (unseen_word_count_dict ex_mid') ''b'' = Some 2 \<and>
   (0 :: int) < 2 \<and>
   get_total rat_ops ex_cfg ex_train ex_valid ex_test
     \<lparr>word_embeds = ex_pre, unseen_word_dict = [], unseen_word_count_dict = []\<rparr> = Inr ex_loaded \<and>
   map_of (unseen_word_count_dict (final ex_loaded)) ''b'' = Some 3 \<and>
   (3 :: int) = int (length (corpus_contribs ex_pre (window_size ex_cfg) ''b''
                        (train_data ex_loaded @ valid_data ex_loaded @ test_data ex_loaded))) \<and>
   \<not> has_key (unseen_word_count_dict (final ex_loaded)) ''x'' \<and>
   merge_word rat_ops ''x'' (final ex_loaded, []) = Inr (final ex_loaded, [''x'']) \<and>
   merge_word rat_ops ''b'' (ex_mid', []) =
     Inr (ex_mid'\<lparr>unseen_word_dict := AList.update ''b'' (np_div rat_ops [4, 0] 2)
                                         (unseen_word_dict ex_mid'),
                  word_embeds := AList.update ''b'' (np_div rat_ops [4, 0] 2) (word_embeds ex_mid')\<rparr>,
          [])"
proof -
  have pos: "\<forall>x c. map_of (unseen_word_count_dict ex_mid) x = Some c \<longrightarrow> 0 < c"
    by (simp add: ex_mid_def)
  have b1: "map_of (unseen_word_count_dict ex_mid) ''b'' = Some 1"
    by (simp add: ex_mid_def)
  have b2: "map_of (unseen_word_count_dict ex_mid') ''b'' = Some 2"
    and a2: "map_of (unseen_word_dict ex_mid') ''b'' = Some [4, 0]"
    by (simp_all add: ex_mid'_def)
  have b3: "map_of (unseen_word_count_dict (final ex_loaded)) ''b'' = Some 3"
    and x3: "\<not> has_key (unseen_word_count_dict (final ex_loaded)) ''x''"
    by (simp_all add: ex_loaded_def has_key_def)
  note thm1 = counts_positive [of ex_mid rat_ops "[''a'', ''b'', ''c'']" 1 "''b''" 1 ex_mid'
      ex_cfg ex_train ex_valid ex_test ex_pre ex_loaded "[]" 2 "[4, 0]"]
  note thm2 = counts_positive [of "final ex_loaded" rat_ops "[]" 0 "''x''" 0 "final ex_loaded"
      ex_cfg ex_train ex_valid ex_test ex_pre ex_loaded "[]" 0 "[]"]
  note thm3 = counts_positive [of ex_mid' rat_ops "[]" 0 "''b''" 0 ex_mid'
      ex_cfg ex_train ex_valid ex_test ex_pre ex_loaded "[]" 2 "[4, 0]"]
  from thm1 pos ex_contribute b2 have "(0 :: int) < 2"
    by blast
  moreover from thm1 ex_get_total_start b3
  have "(3 :: int) = int (length (corpus_contribs ex_pre (window_size ex_cfg) ''b''
                        (train_data ex_loaded @ valid_data ex_loaded @ test_data ex_loaded)))"
    by blast
  moreover from thm3 b2 a2 have "merge_word rat_ops ''b'' (ex_mid', []) =
     Inr (ex_mid'\<lparr>unseen_word_dict := AList.update ''b'' (np_div rat_ops [4, 0] 2)
                                         (unseen_word_dict ex_mid'),
                  word_embeds := AList.update ''b'' (np_div rat_ops [4, 0] 2) (word_embeds ex_mid')\<rparr>,
          [])"
    by blast
  moreover from thm2 x3
  have "merge_word rat_ops ''x'' (final ex_loaded, []) = Inr (final ex_loaded, [''x''])"
    by simp
  ultimately show ?thesis
    using ex_contribute b1 b2 ex_get_total_start b3 x3 by blast
qed

section \<open>Collation\<close>

lemma store_ints:
  "list_all int64 row \<Longrightarrow> for_loop store_scalar (map PyInt row) stored = Inr (stored @ row)"
  by (induction row arbitrary: stored) (simp_all add: store_scalar_def)

lemma store_rows:
  "\<forall>row \<in> set rows. length row = n \<and> list_all int64 row \<Longrightarrow>
     for_loop (store_row n) (map (map PyInt) rows) stored = Inr (stored @ concat rows)"
  by (induction rows arbitrary: stored) (simp_all add: store_row_def store_ints)

lemma torch_tensor_2d_rows:
  assumes "rows \<noteq> []" and "\<forall>row \<in> set rows. length row = n \<and> list_all int64 row"
  shows "torch_tensor_2d (map (map PyInt) rows) =
           Inr \<lparr>tshape = [length rows, n], tdata = concat rows\<rparr>"
proof -
  from assms(1) obtain row rest where rows: "rows = row # rest" by (cases rows) auto
  with assms(2) have n: "length row = n" by simp
  show ?thesis
  proof (cases row)
    case Nil
    with n have "n = 0" by simp
    with assms(2) have "concat rows = []" by simp
    with Nil \<open>n = 0\<close> show ?thesis
      by (simp add: torch_tensor_2d_def compute_sizes_def rows)
  next
    case (Cons i rest_row)
    with n have sizes: "compute_sizes (map (map PyInt) rows) = Inr [length rows, n]"
      by (auto simp add: compute_sizes_def rows)
    from Cons n have "prod_list [length rows, n] \<noteq> 0" by (auto simp add: rows)
    with sizes store_rows [OF assms(2), of "[]"] show ?thesis
      by (simp add: torch_tensor_2d_def)
  qed
qed

text \<open>
  Claim C8, as the code has it. On a batch of \<open>N \<ge> 1\<close> examples whose premises are
  lists of integers of the 64-bit range, all of one length \<open>L\<close>, and whose labels are
  integers of that range, \<open>batchify\<close> returns two int64 tensors: one of shape \<open>[N, L]\<close>
  that holds the first fields of the examples, row by row, and one of shape \<open>[N]\<close> that
  holds their third fields unchanged.
\<close>

theorem batchify_indices:
  assumes "ib \<noteq> []"
    and "\<forall>e \<in> set ib. length (fst e) = L \<and> list_all int64 (fst e) \<and> int64 (snd (snd e))"
  shows "batchify (map (\<lambda>e. (map PyInt (fst e), fst (snd e), snd (snd e))) ib) =
           Inr (\<lparr>tshape = [length ib, L], tdata = concat (map fst ib)\<rparr>,
                \<lparr>tshape = [length ib], tdata = map (\<lambda>e. snd (snd e)) ib\<rparr>)"
proof -
  let ?b = "map (\<lambda>e. (map PyInt (fst e), fst (snd e), snd (snd e))) ib"
  have rows: "map (\<lambda>e. fst e) ?b = map (map PyInt) (map fst ib)"
    by (simp add: comp_def)
  have labels: "map (\<lambda>e. snd (snd e)) ?b = map (\<lambda>e. snd (snd e)) ib"
    by (simp add: comp_def)
  have x: "torch_tensor_2d (map (map PyInt) (map fst ib)) =
      Inr \<lparr>tshape = [length ib, L], tdata = concat (map fst ib)\<rparr>"
    using torch_tensor_2d_rows [of "map fst ib" L] assms by simp
  have "list_all int64 (map (\<lambda>e. snd (snd e)) ib)"
    using assms(2) by (simp add: list_all_iff)
  then have y: "torch_tensor_1d (map (\<lambda>e. snd (snd e)) ib) =
      Inr \<lparr>tshape = [length ib], tdata = map (\<lambda>e. snd (snd e)) ib\<rparr>"
    by (simp add: torch_tensor_1d_def)
  show ?thesis
    unfolding batchify_def Let_def rows labels using x y by simp
qed

theorem batchify_indices_witness:
  "ex_batch \<noteq> [] \<and>
   list_all (\<lambda>e. length (fst e) = 3 \<and> list_all int64 (fst e) \<and> int64 (snd (snd e))) ex_batch \<and>
   batchify [([PyInt 5, PyInt 7, PyInt 0], [4, 0], 2), ([PyInt 9, PyInt 2, PyInt 6], [3, 8 :: int], 0)] =
     Inr (\<lparr>tshape = [2, 3], tdata = [5, 7, 0, 9, 2, 6]\<rparr>, \<lparr>tshape = [2], tdata = [2, 0]\<rparr>)"
proof -
  have a: "ex_batch \<noteq> []"
    by (simp add: ex_batch_def)
  have b: "\<forall>e \<in> set ex_batch. length (fst e) = 3 \<and> list_all int64 (fst e) \<and> int64 (snd (snd e))"
    by (simp add: ex_batch_def int64_def)
  from batchify_indices [OF a b]
  have "batchify [([PyInt 5, PyInt 7, PyInt 0], [4, 0], 2), ([PyInt 9, PyInt 2, PyInt 6], [3, 8 :: int], 0)] =
     Inr (\<lparr>tshape = [2, 3], tdata = [5, 7, 0, 9, 2, 6]\<rparr>, \<lparr>tshape = [2], tdata = [2, 0]\<rparr>)"
    by (simp add: ex_batch_def)
  with a b show ?thesis by (simp add: list_all_iff)
qed

text \<open>
  Claim C8 as the specification states it fails in four ways. The empty batch, whose
  premises share every length, gives a premise tensor of shape \<open>[0]\<close>, not \<open>[0, L]\<close>. A
  label outside 0, 1, 2 is stored as it is. An index outside the 64-bit range raises.
  And the examples that \<open>load\<close> built on the small corpus, whose tokens are strings,
  raise.
\<close>

theorem batchify_off_domain:
  "batchify ([] :: (pyval list \<times> pyval list \<times> int) list) =
     Inr (\<lparr>tshape = [0], tdata = []\<rparr>, \<lparr>tshape = [0], tdata = []\<rparr>) \<and>
   batchify [([PyInt 5, PyInt 7], [PyInt 4], 7)] =
     Inr (\<lparr>tshape = [1, 2], tdata = [5, 7]\<rparr>, \<lparr>tshape = [1], tdata = [7]\<rparr>) \<and>
   batchify [([PyInt (2 ^ 63)], [PyInt 4], 0)] = Inl ValueError \<and>
   batchify (map stored_example (train_data ex_loaded)) = Inl ValueError"
  by (simp add: batchify_def torch_tensor_2d_def torch_tensor_1d_def compute_sizes_def
      store_row_def store_scalar_def int64_def stored_example_def ex_loaded_def)

end
